theory Spec2Isabelle
  imports Main "HOL-Library.AList"
begin

section \<open>Positions: integer-valued complex numbers\<close>

text \<open>
  The grid module addresses cells by Python complex numbers \<^verbatim>\<open>col + row*1j\<close>.
  A position is modelled by its two integer parts; \<^verbatim>\<open>complex(x, y)\<close> is \<open>Pos x y\<close>,
  the attributes \<^verbatim>\<open>.real\<close> and \<^verbatim>\<open>.imag\<close> are the selectors, and the literal
  \<^verbatim>\<open>1j\<close> is \<open>onej\<close>. Addition and subtraction are componentwise, as for complex numbers.

  The two parts of a Python complex number are 64-bit floats. They hold every integer from
  \<open>- 2 ^ 53\<close> to \<open>2 ^ 53\<close> and add and subtract such integers exactly as long as the
  result stays in this range; beyond it they round. The arithmetic of the model is exact
  everywhere, so it is the arithmetic of the code on the coordinates of this range, which
  \<open>exact_coord\<close> names.
\<close>

datatype pos = Pos (real_part: int) (imag_part: int)

instantiation pos :: "{zero, one, plus, minus, uminus}"
begin

definition zero_pos :: pos where "zero_pos = Pos 0 0"

definition one_pos :: pos where "one_pos = Pos 1 0"

fun plus_pos :: "pos \<Rightarrow> pos \<Rightarrow> pos" where
  "plus_pos (Pos a b) (Pos c e) = Pos (a + c) (b + e)"

fun minus_pos :: "pos \<Rightarrow> pos \<Rightarrow> pos" where
  "minus_pos (Pos a b) (Pos c e) = Pos (a - c) (b - e)"

fun uminus_pos :: "pos \<Rightarrow> pos" where
  "uminus_pos (Pos a b) = Pos (- a) (- b)"

instance ..

end

definition onej :: pos where
  "onej = Pos 0 1"

definition exact_coord :: "int \<Rightarrow> bool" where
  "exact_coord n \<longleftrightarrow> - (2 ^ 53) \<le> n \<and> n \<le> 2 ^ 53"

section \<open>Exceptions\<close>

text \<open>
  Every exception the module can raise is a value; an operation that may raise returns
  \<open>error + 'a\<close> with \<open>Inl\<close> for the exception. \<open>NetworkXNoPath\<close> and \<open>NodeNotFound\<close>
  are the two exceptions of the graph library's shortest-path query.
\<close>

datatype error =
    KeyError
  | NotImplementedError
  | TypeError
  | ValueError
  | NetworkXNoPath
  | NodeNotFound

section \<open>The range generator \<^verbatim>\<open>zrange\<close>\<close>

text \<open>
  Python's builtin \<^verbatim>\<open>range(a, b, s)\<close> on integers: a zero step raises \<^verbatim>\<open>ValueError\<close>;
  otherwise the elements are \<open>a + k * s\<close> for \<open>k\<close> below the length that the interpreter
  computes from the bounds and the step.
\<close>

definition range_len :: "int \<Rightarrow> int \<Rightarrow> int \<Rightarrow> nat" where
  "range_len a b s =
     (if 0 < s then (if a < b then nat ((b - a - 1) div s + 1) else 0)
      else (if b < a then nat ((a - b - 1) div (- s) + 1) else 0))"

definition py_range :: "int \<Rightarrow> int \<Rightarrow> int \<Rightarrow> error + int list" where
  "py_range a b s =
     (if s = 0 then Inl ValueError
      else Inr (map (\<lambda>k. a + int k * s) [0 ..< range_len a b s]))"

text \<open>
  \<^verbatim>\<open>zrange\<close> takes a variable number of arguments: the argument tuple is a list. One argument is the stop, two are start
  and stop, three are start, stop and step; any other count raises \<^verbatim>\<open>TypeError\<close>.
\<close>

fun zrange_args :: "pos list \<Rightarrow> error + (pos \<times> pos \<times> pos)" where
  "zrange_args [stop] = Inr (0, stop, 1 + onej)"
| "zrange_args [start, stop] = Inr (start, stop, 1 + onej)"
| "zrange_args [start, stop, step] = Inr (start, stop, step)"
| "zrange_args _ = Inl TypeError"

definition zrange :: "pos list \<Rightarrow> error + pos list" where
  "zrange args =
     (case zrange_args args of
        Inl e \<Rightarrow> Inl e
      | Inr (start, stop, step) \<Rightarrow>
          (case py_range (real_part start) (real_part stop) (real_part step) of
             Inl e \<Rightarrow> Inl e
           | Inr xs \<Rightarrow>
               (case py_range (imag_part start) (imag_part stop) (imag_part step) of
                  Inl e \<Rightarrow> Inl e
                | Inr ys \<Rightarrow> Inr (concat (map (\<lambda>y. map (\<lambda>x. Pos x y) xs) ys)))))"

section \<open>Neighbours\<close>

text \<open>
  \<^verbatim>\<open>ZGrid.near(z, n=4)\<close> has a branch for \<open>n = 4\<close>, a branch for \<open>n = 8\<close> and no
  \<^verbatim>\<open>else\<close>: for any other \<open>n\<close> the body falls off its end and the call returns Python's
  \<^verbatim>\<open>None\<close>. The result is \<open>Inr (Some zs)\<close> for a returned list, \<open>Inr None\<close> for a
  returned \<^verbatim>\<open>None\<close>; no path of the function raises, so \<open>Inl\<close> never occurs.
\<close>

definition ZGrid_near :: "pos \<Rightarrow> int \<Rightarrow> error + pos list option" where
  "ZGrid_near z n =
     (if n = 4 then Inr (Some [z - onej, z + 1, z + onej, z - 1])
      else if n = 8 then
        Inr (Some [z - 1 - onej, z - onej, z + 1 - onej,
                   z - 1, z + 1,
                   z - 1 + onej, z + onej, z + 1 + onej])
      else Inr None)"

section \<open>Dictionaries\<close>

text \<open>
  A Python \<^verbatim>\<open>dict\<close> keeps its entries in insertion order with one entry per key: it is an
  association list whose keys are distinct. Writing an existing key replaces its value in
  place, writing a new key appends (\<open>AList.update\<close>); \<^verbatim>\<open>d.get(k)\<close> and \<^verbatim>\<open>k in d\<close>
  are \<open>map_of\<close>.
\<close>

definition wf_dict :: "('k \<times> 'v) list \<Rightarrow> bool" where
  "wf_dict kvs = distinct (map fst kvs)"

subsection \<open>The lazy mapping \<^verbatim>\<open>ZDict\<close>\<close>

text \<open>
  \<^verbatim>\<open>ZDict\<close> is a \<^verbatim>\<open>dict\<close> subclass with a backing function \<open>func\<close>, taken as a pure
  total function. \<open>items\<close> are the entries of the dictionary itself. \<open>calls\<close> is the trace of
  the arguments \<open>func\<close> has been invoked on, oldest first: no operation reads it, it is there
  so that the number of invocations can be stated.

  A key is a number (\<^verbatim>\<open>int\<close>, \<^verbatim>\<open>float\<close> or \<^verbatim>\<open>complex\<close>, here a position) or anything else;
  only positions are ever stored in the model.
\<close>

record 'g ZDict =
  func :: "pos \<Rightarrow> 'g"
  items :: "(pos \<times> 'g) list"
  calls :: "pos list"

datatype key = NumKey pos | OtherKey

text \<open>
  \<^verbatim>\<open>__missing__(self, z)\<close>: a key that is not a number raises \<^verbatim>\<open>NotImplementedError\<close>;
  otherwise \<^verbatim>\<open>self[z] = self.func(z)\<close> calls the function and stores the result, and
  \<^verbatim>\<open>return self[z]\<close> reads the entry just stored.
\<close>

definition ZDict_missing :: "'g ZDict \<Rightarrow> key \<Rightarrow> (error + 'g) \<times> 'g ZDict" where
  "ZDict_missing self k =
     (case k of
        OtherKey \<Rightarrow> (Inl NotImplementedError, self)
      | NumKey z \<Rightarrow>
          (let v = func self z;
               self' = self\<lparr>items := AList.update z v (items self), calls := calls self @ [z]\<rparr>
           in (case map_of (items self') z of
                 Some v' \<Rightarrow> (Inr v', self')
               | None \<Rightarrow> (Inl KeyError, self'))))"

text \<open>\<^verbatim>\<open>self[k]\<close> on a \<^verbatim>\<open>ZDict\<close>: a stored key is returned, a missing one goes to
  \<^verbatim>\<open>__missing__\<close>.\<close>

definition ZDict_getitem :: "'g ZDict \<Rightarrow> key \<Rightarrow> (error + 'g) \<times> 'g ZDict" where
  "ZDict_getitem self k =
     (case k of
        OtherKey \<Rightarrow> ZDict_missing self k
      | NumKey z \<Rightarrow>
          (case map_of (items self) z of
             Some v \<Rightarrow> (Inr v, self)
           | None \<Rightarrow> ZDict_missing self k))"

text \<open>A sequence of reads, one after the other, keeping the mapping reached at the end.\<close>

fun ZDict_reads :: "'g ZDict \<Rightarrow> key list \<Rightarrow> 'g ZDict" where
  "ZDict_reads self [] = self"
| "ZDict_reads self (k # ks) = ZDict_reads (snd (ZDict_getitem self k)) ks"

subsection \<open>The mapping behind a grid\<close>

text \<open>
  \<^verbatim>\<open>ZGrid.d\<close> is a plain \<^verbatim>\<open>dict\<close> (empty, filled from text, or adopted from the caller) or
  a \<^verbatim>\<open>ZDict\<close> (when the grid is built from a callable).
\<close>

datatype 'g store = PlainDict "(pos \<times> 'g) list" | LazyDict "'g ZDict"

fun store_items :: "'g store \<Rightarrow> (pos \<times> 'g) list" where
  "store_items (PlainDict kvs) = kvs"
| "store_items (LazyDict zd) = items zd"

fun store_getitem :: "'g store \<Rightarrow> pos \<Rightarrow> (error + 'g) \<times> 'g store" where
  "store_getitem (PlainDict kvs) z =
     (case map_of kvs z of None \<Rightarrow> (Inl KeyError, PlainDict kvs) | Some v \<Rightarrow> (Inr v, PlainDict kvs))"
| "store_getitem (LazyDict zd) z =
     (case ZDict_getitem zd (NumKey z) of (r, zd') \<Rightarrow> (r, LazyDict zd'))"

fun store_setitem :: "'g store \<Rightarrow> pos \<Rightarrow> 'g \<Rightarrow> 'g store" where
  "store_setitem (PlainDict kvs) z v = PlainDict (AList.update z v kvs)"
| "store_setitem (LazyDict zd) z v = LazyDict (zd\<lparr>items := AList.update z v (items zd)\<rparr>)"

fun store_delitem :: "'g store \<Rightarrow> pos \<Rightarrow> error + 'g store" where
  "store_delitem (PlainDict kvs) z =
     (if map_of kvs z = None then Inl KeyError else Inr (PlainDict (AList.delete z kvs)))"
| "store_delitem (LazyDict zd) z =
     (if map_of (items zd) z = None then Inl KeyError
      else Inr (LazyDict (zd\<lparr>items := AList.delete z (items zd)\<rparr>)))"

definition store_get :: "'g store \<Rightarrow> pos \<Rightarrow> 'g option" where
  "store_get s z = map_of (store_items s) z"

section \<open>The grid\<close>

record 'g ZGrid =
  on :: 'g
  off :: 'g
  d :: "'g store"

subsection \<open>Construction\<close>

text \<open>
  \<^verbatim>\<open>str.splitlines()\<close> of the Python library, on strings of 8-bit characters: a line ends
  at \<^verbatim>\<open>\n\<close>, \<^verbatim>\<open>\r\<close>, \<^verbatim>\<open>\r\n\<close>, \<^verbatim>\<open>\v\<close>, \<^verbatim>\<open>\f\<close>, \<^verbatim>\<open>\x1c\<close>, \<^verbatim>\<open>\x1d\<close>, \<^verbatim>\<open>\x1e\<close> or
  \<^verbatim>\<open>\x85\<close>; the line ends are dropped and a text that ends in one has no empty last line.
\<close>

definition is_linebreak :: "char \<Rightarrow> bool" where
  "is_linebreak c \<longleftrightarrow>
     c \<in> set [CHR 0x0A, CHR 0x0B, CHR 0x0C, CHR 0x0D, CHR 0x1C, CHR 0x1D, CHR 0x1E, CHR 0x85]"

fun splitlines_from :: "string \<Rightarrow> string \<Rightarrow> string list" where
  "splitlines_from cur [] = (if cur = [] then [] else [cur])"
| "splitlines_from cur (c # cs) =
     (if c = CHR 0x0D then
        (case cs of
           [] \<Rightarrow> cur # splitlines_from [] cs
         | c' # cs' \<Rightarrow>
             if c' = CHR 0x0A then cur # splitlines_from [] cs'
             else cur # splitlines_from [] cs)
      else if is_linebreak c then cur # splitlines_from [] cs
      else splitlines_from (cur @ [c]) cs)"

definition splitlines :: "string \<Rightarrow> string list" where
  "splitlines text = splitlines_from [] text"

text \<open>
  \<^verbatim>\<open>ZGrid.__init__(initial_data=None, on="#", off=".")\<close>. A string fills a fresh \<^verbatim>\<open>dict\<close>
  with \<^verbatim>\<open>d[col + row*1j] = char\<close> for every character of every line; a callable becomes
  the function of a \<^verbatim>\<open>ZDict\<close>; a \<^verbatim>\<open>dict\<close> is adopted; anything else leaves the grid
  empty.
\<close>

datatype 'g initial_data =
    NoData
  | Str string
  | Callable "pos \<Rightarrow> 'g"
  | Mapping "(pos \<times> 'g) list"
  | OtherData

definition init_line :: "nat \<Rightarrow> string \<Rightarrow> (pos \<times> char) list \<Rightarrow> (pos \<times> char) list" where
  "init_line row line kvs =
     fold (\<lambda>(col, char) acc. AList.update (Pos (int col) (int row)) char acc) (enumerate 0 line) kvs"

definition init_text :: "string \<Rightarrow> (pos \<times> char) list" where
  "init_text text = fold (\<lambda>(row, line) acc. init_line row line acc) (enumerate 0 (splitlines text)) []"

fun ZGrid_init :: "char initial_data \<Rightarrow> char \<Rightarrow> char \<Rightarrow> char ZGrid" where
  "ZGrid_init NoData on_glyph off_glyph = \<lparr>on = on_glyph, off = off_glyph, d = PlainDict []\<rparr>"
| "ZGrid_init (Str text) on_glyph off_glyph =
     \<lparr>on = on_glyph, off = off_glyph, d = PlainDict (init_text text)\<rparr>"
| "ZGrid_init (Callable f) on_glyph off_glyph =
     \<lparr>on = on_glyph, off = off_glyph, d = LazyDict \<lparr>func = f, items = [], calls = []\<rparr>\<rparr>"
| "ZGrid_init (Mapping kvs) on_glyph off_glyph = \<lparr>on = on_glyph, off = off_glyph, d = PlainDict kvs\<rparr>"
| "ZGrid_init OtherData on_glyph off_glyph = \<lparr>on = on_glyph, off = off_glyph, d = PlainDict []\<rparr>"

subsection \<open>Cell access\<close>

definition ZGrid_getitem :: "'g ZGrid \<Rightarrow> pos \<Rightarrow> (error + 'g) \<times> 'g ZGrid" where
  "ZGrid_getitem self k = (case store_getitem (d self) k of (r, s) \<Rightarrow> (r, self\<lparr>d := s\<rparr>))"

definition ZGrid_setitem :: "'g ZGrid \<Rightarrow> pos \<Rightarrow> 'g \<Rightarrow> 'g ZGrid" where
  "ZGrid_setitem self k v = self\<lparr>d := store_setitem (d self) k v\<rparr>"

definition ZGrid_delitem :: "'g ZGrid \<Rightarrow> pos \<Rightarrow> error + 'g ZGrid" where
  "ZGrid_delitem self k =
     (case store_delitem (d self) k of Inl e \<Rightarrow> Inl e | Inr s \<Rightarrow> Inr (self\<lparr>d := s\<rparr>))"

definition ZGrid_items :: "'g ZGrid \<Rightarrow> (pos \<times> 'g) list" where
  "ZGrid_items self = store_items (d self)"

definition ZGrid_get :: "'g ZGrid \<Rightarrow> pos \<Rightarrow> 'g option" where
  "ZGrid_get self k = store_get (d self) k"

subsection \<open>Value search\<close>

text \<open>
  \<^verbatim>\<open>ZGrid.z(val, first=True)\<close> returns a position from inside the loop when \<open>first\<close> is set
  and a cell matches, and the list \<open>zs\<close> after the loop otherwise.
\<close>

datatype found = Position pos | Positions "pos list"

fun z_loop :: "(pos \<times> 'g) list \<Rightarrow> 'g \<Rightarrow> bool \<Rightarrow> pos list \<Rightarrow> found" where
  "z_loop [] val first zs = Positions zs"
| "z_loop ((k, v) # kvs) val first zs =
     (if v = val then (if first then Position k else z_loop kvs val first (zs @ [k]))
      else z_loop kvs val first zs)"

definition ZGrid_z :: "'g ZGrid \<Rightarrow> 'g \<Rightarrow> bool \<Rightarrow> found" where
  "ZGrid_z self val first = z_loop (ZGrid_items self) val first []"

subsection \<open>Translation\<close>

text \<open>
  \<^verbatim>\<open>ZGrid.translate(table)\<close> walks the keys of the mapping; at each key it reads the cell,
  and when the glyph read is a key of \<open>table\<close> it writes \<open>table[glyph]\<close> back.
\<close>

fun translate_loop :: "pos list \<Rightarrow> 'g store \<Rightarrow> ('g \<rightharpoonup> 'g) \<Rightarrow> error + 'g store" where
  "translate_loop [] s table = Inr s"
| "translate_loop (z # zs) s table =
     (case store_getitem s z of
        (Inl e, s') \<Rightarrow> Inl e
      | (Inr g, s') \<Rightarrow>
          (case table g of
             None \<Rightarrow> translate_loop zs s' table
           | Some g' \<Rightarrow> translate_loop zs (store_setitem s' z g') table))"

definition ZGrid_translate :: "'g ZGrid \<Rightarrow> ('g \<rightharpoonup> 'g) \<Rightarrow> error + 'g ZGrid" where
  "ZGrid_translate self table =
     (case translate_loop (map fst (store_items (d self))) (d self) table of
        Inl e \<Rightarrow> Inl e
      | Inr s \<Rightarrow> Inr (self\<lparr>d := s\<rparr>))"

subsection \<open>Array export\<close>

text \<open>
  \<^verbatim>\<open>ZGrid.__array__\<close> goes through the array library: \<^verbatim>\<open>ptp\<close> is maximum minus minimum and
  raises \<^verbatim>\<open>ValueError\<close> on an empty array; \<^verbatim>\<open>np.full((h, w), off)\<close> is \<open>h\<close> rows of
  \<open>w\<close> copies of \<open>off\<close>; the indexed assignment \<^verbatim>\<open>full[ys - ys.min(), xs - xs.min()] = vs\<close>
  writes the values one after the other, each at its row and column. The array is a list
  of rows.

  The export is modelled for grids whose glyphs are one-character strings, as the text
  constructor builds them. The array of such values has the element type \<^verbatim>\<open><U1\<close>: each
  element is a cell of one character, and what is read back from a cell is its content
  without trailing NUL characters. So a glyph comes back as the string of this one
  character, except NUL, which comes back as the empty string.
\<close>

definition ptp :: "int list \<Rightarrow> error + int" where
  "ptp ns = (if ns = [] then Inl ValueError else Inr (Max (set ns) - Min (set ns)))"

definition U1_item :: "char \<Rightarrow> string" where
  "U1_item c = (if c = CHR 0x00 then [] else [c])"

definition assign_cell :: "(nat \<times> nat) \<times> 'v \<Rightarrow> 'v list list \<Rightarrow> 'v list list" where
  "assign_cell a full = (case a of ((y, x), v) \<Rightarrow> full[y := (full ! y)[x := v]])"

definition ZGrid_array :: "char ZGrid \<Rightarrow> error + string list list" where
  "ZGrid_array self =
     (let zs = map fst (store_items (d self));
          xs = map real_part zs;
          ys = map imag_part zs;
          vs = map U1_item (map snd (store_items (d self)))
      in case ptp xs of
           Inl e \<Rightarrow> Inl e
         | Inr pw \<Rightarrow>
             (case ptp ys of
                Inl e \<Rightarrow> Inl e
              | Inr ph \<Rightarrow>
                  (let w = pw + 1;
                       h = ph + 1;
                       full = replicate (nat h) (replicate (nat w) (U1_item (off self)));
                       rows = map (\<lambda>y. nat (y - Min (set ys))) ys;
                       cols = map (\<lambda>x. nat (x - Min (set xs))) xs
                   in Inr (fold assign_cell (zip (zip rows cols) vs) full))))"

section \<open>The graph of a grid\<close>

text \<open>
  Modelled from the spec: the graph library (\<^verbatim>\<open>networkx\<close>) is not part of the sources. A
  graph is its adjacency, an insertion-ordered mapping from each node to the list of its
  neighbours; \<^verbatim>\<open>add_node\<close> adds a node once, \<^verbatim>\<open>add_edge\<close> adds both end points when they
  are missing and makes each a neighbour of the other. \<open>extra\<close> is the attribute
  \<^verbatim>\<open>g.extra\<close> that \<^verbatim>\<open>ZGrid.graph\<close> sets on the graph.
\<close>

record 'g Graph =
  adj :: "(pos \<times> pos list) list"
  extra :: "('g \<times> pos) list"

definition add_node :: "pos \<Rightarrow> 'g Graph \<Rightarrow> 'g Graph" where
  "add_node n G = (if map_of (adj G) n = None then G\<lparr>adj := adj G @ [(n, [])]\<rparr> else G)"

definition add_neighbour :: "pos \<Rightarrow> pos \<Rightarrow> (pos \<times> pos list) list \<Rightarrow> (pos \<times> pos list) list" where
  "add_neighbour u v A =
     (case map_of A u of
        None \<Rightarrow> A
      | Some ns \<Rightarrow> AList.update u (if v \<in> set ns then ns else ns @ [v]) A)"

definition add_edge :: "pos \<Rightarrow> pos \<Rightarrow> 'g Graph \<Rightarrow> 'g Graph" where
  "add_edge u v G =
     (let G' = add_node v (add_node u G)
      in G'\<lparr>adj := add_neighbour v u (add_neighbour u v (adj G'))\<rparr>)"

definition neighbours :: "'g Graph \<Rightarrow> pos \<Rightarrow> pos list" where
  "neighbours G u = (case map_of (adj G) u of None \<Rightarrow> [] | Some ns \<Rightarrow> ns)"

text \<open>
  Modelled from the spec: \<^verbatim>\<open>nx.shortest_path_length(g, source, target)\<close> is the standard
  unweighted breadth-first shortest path length; it fails when an end point is not a node
  and when no path exists. \<open>within G s n\<close> are the nodes that at most \<open>n\<close> edges reach from
  \<open>s\<close>; a shortest path has fewer edges than the graph has nodes.
\<close>

fun within :: "'g Graph \<Rightarrow> pos \<Rightarrow> nat \<Rightarrow> pos list" where
  "within G s 0 = [s]"
| "within G s (Suc n) = remdups (within G s n @ concat (map (neighbours G) (within G s n)))"

definition shortest_path_length :: "'g Graph \<Rightarrow> pos \<Rightarrow> pos \<Rightarrow> error + int" where
  "shortest_path_length G source target =
     (if map_of (adj G) source = None \<or> map_of (adj G) target = None then Inl NodeNotFound
      else (case find (\<lambda>n. target \<in> set (within G source n)) [0 ..< length (adj G)] of
              None \<Rightarrow> Inl NetworkXNoPath
            | Some n \<Rightarrow> Inr (int n)))"

text \<open>
  \<^verbatim>\<open>ZGrid.graph(extra=())\<close>: the node glyphs are \<open>on\<close> and the extra ones. Every cell with
  a node glyph becomes a node; a glyph other than \<open>on\<close> is recorded in \<open>g.extra\<close>; an edge
  goes to the right and to the lower neighbour when \<^verbatim>\<open>self.d.get\<close> answers a node glyph
  there.

  \<^verbatim>\<open>self.d.get(k)\<close> answers Python's \<^verbatim>\<open>None\<close> for an absent cell, and the membership test
  compares this answer with the node glyphs; it succeeds when \<open>on\<close> or an extra glyph is
  \<^verbatim>\<open>None\<close> itself. The glyphs of a grid given to \<open>graph\<close> are therefore Python values that
  may be \<^verbatim>\<open>None\<close>: the type \<open>'a option\<close>, with \<open>None\<close> for Python's \<^verbatim>\<open>None\<close>.
\<close>

definition dict_get :: "'a option store \<Rightarrow> pos \<Rightarrow> 'a option" where
  "dict_get s k = (case store_get s k of None \<Rightarrow> None | Some g \<Rightarrow> g)"

definition is_node_glyph :: "'a option \<Rightarrow> 'a option list \<Rightarrow> 'a option \<Rightarrow> bool" where
  "is_node_glyph on_glyph extras got \<longleftrightarrow> got = on_glyph \<or> got \<in> set extras"

fun graph_loop ::
  "(pos \<times> 'a option) list \<Rightarrow> 'a option ZGrid \<Rightarrow> 'a option list \<Rightarrow> 'a option Graph
     \<Rightarrow> 'a option Graph" where
  "graph_loop [] self extras G = G"
| "graph_loop ((p, glyph) # rest) self extras G =
     (if is_node_glyph (on self) extras glyph then
        (let G1 = add_node p G;
             G2 = (if glyph \<noteq> on self then G1\<lparr>extra := AList.update glyph p (extra G1)\<rparr> else G1);
             right = p + 1;
             down = p + onej;
             G3 = (if is_node_glyph (on self) extras (dict_get (d self) right)
                   then add_edge p right G2 else G2);
             G4 = (if is_node_glyph (on self) extras (dict_get (d self) down)
                   then add_edge p down G3 else G3)
         in graph_loop rest self extras G4)
      else graph_loop rest self extras G)"

definition ZGrid_graph :: "'a option ZGrid \<Rightarrow> 'a option list \<Rightarrow> 'a option Graph" where
  "ZGrid_graph self extras = graph_loop (ZGrid_items self) self extras \<lparr>adj = [], extra = []\<rparr>"

definition ZGrid_path_length :: "'a option ZGrid \<Rightarrow> pos \<Rightarrow> pos \<Rightarrow> error + int" where
  "ZGrid_path_length self z z0 = shortest_path_length (ZGrid_graph self []) z0 z"

section \<open>Breadth-first search\<close>

text \<open>
  The inner loop of \<^verbatim>\<open>ZGrid.bfs\<close> over the four neighbours of the cell just recorded: a
  neighbour in \<open>seen\<close> is skipped, a \<^verbatim>\<open>KeyError\<close> of the read is caught and the neighbour
  skipped, any other exception leaves the search, and a neighbour whose glyph is \<open>on\<close> is
  put at the end of the queue with the next depth. Reading a cell of a lazy grid fills it,
  so the grid is passed along.
\<close>

fun bfs_scan ::
  "'g ZGrid \<Rightarrow> (pos \<times> int) list \<Rightarrow> int \<Rightarrow> pos list \<Rightarrow> (pos \<times> int) list
     \<Rightarrow> (error + (pos \<times> int) list) \<times> 'g ZGrid" where
  "bfs_scan self seen depth [] queue = (Inr queue, self)"
| "bfs_scan self seen depth (z # zs) queue =
     (if map_of seen z \<noteq> None then bfs_scan self seen depth zs queue
      else (case ZGrid_getitem self z of
              (Inl e, self') \<Rightarrow>
                if e = KeyError then bfs_scan self' seen depth zs queue else (Inl e, self')
            | (Inr g, self') \<Rightarrow>
                if g = on self' then bfs_scan self' seen depth zs (queue @ [(z, depth + 1)])
                else bfs_scan self' seen depth zs queue))"

text \<open>
  The \<^verbatim>\<open>while queue\<close> loop. It need not end (a lazy grid whose function answers \<open>on\<close>
  everywhere, searched without a depth limit), so the result is an option and \<open>None\<close> is a
  search that never returns.
\<close>

partial_function (option) bfs_loop ::
  "'g ZGrid \<Rightarrow> pos option \<Rightarrow> int option \<Rightarrow> (pos \<times> int) list \<Rightarrow> (pos \<times> int) list
     \<Rightarrow> ((error + (pos \<times> int) list) \<times> 'g ZGrid) option" where
  "bfs_loop self target max_depth seen queue =
     (case queue of
        [] \<Rightarrow> Some (Inr seen, self)
      | (z0, depth) # queue' \<Rightarrow>
          if (case max_depth of None \<Rightarrow> False | Some m \<Rightarrow> depth > m) then Some (Inr seen, self)
          else if map_of seen z0 \<noteq> None then bfs_loop self target max_depth seen queue'
          else
            (let seen' = AList.update z0 depth seen
             in if target = Some z0 then Some (Inr seen', self)
                else (case ZGrid_near z0 4 of
                        Inl e \<Rightarrow> Some (Inl e, self)
                      | Inr None \<Rightarrow> Some (Inl TypeError, self)
                      | Inr (Some zs) \<Rightarrow>
                          (case bfs_scan self seen' depth zs queue' of
                             (Inl e, self') \<Rightarrow> Some (Inl e, self')
                           | (Inr queue'', self') \<Rightarrow>
                               bfs_loop self' target max_depth seen' queue''))))"

declare bfs_loop.simps [code]

text \<open>
  \<^verbatim>\<open>ZGrid.bfs(target=None, z0=0, max_depth=None)\<close>: the start cell is read first (an absent
  cell of a plain grid raises \<^verbatim>\<open>KeyError\<close>) and must hold \<open>on\<close>, otherwise
  \<^verbatim>\<open>NotImplementedError\<close> is raised.
\<close>

definition ZGrid_bfs ::
  "'g ZGrid \<Rightarrow> pos option \<Rightarrow> pos \<Rightarrow> int option
     \<Rightarrow> ((error + (pos \<times> int) list) \<times> 'g ZGrid) option" where
  "ZGrid_bfs self target z0 max_depth =
     (case ZGrid_getitem self z0 of
        (Inl e, self') \<Rightarrow> Some (Inl e, self')
      | (Inr g0, self') \<Rightarrow>
          if g0 \<noteq> on self' then Some (Inl NotImplementedError, self')
          else bfs_loop self' target max_depth [] [(z0, 0)])"

section \<open>Auxiliary notions\<close>

text \<open>
  The distance in steps between two positions, used to bound a search with a depth limit:
  a neighbour is one step further at most.
\<close>

definition manhattan :: "pos \<Rightarrow> pos \<Rightarrow> int" where
  "manhattan a b = \<bar>real_part a - real_part b\<bar> + \<bar>imag_part a - imag_part b\<bar>"

section \<open>Properties of the range generator\<close>

lemma py_range_unit: "py_range a b 1 = Inr [a .. b - 1]"
proof -
  have "map (\<lambda>k. a + int k) [0 ..< range_len a b 1] = [a .. b - 1]"
    by (rule nth_equalityI) (auto simp: range_len_def nth_upto split: if_splits)
  then show ?thesis by (simp add: py_range_def)
qed

lemma zrange_start_stop:
  "zrange [start, stop] =
     Inr (concat (map (\<lambda>y. map (\<lambda>x. Pos x y) [real_part start .. real_part stop - 1])
                      [imag_part start .. imag_part stop - 1]))"
  by (simp add: zrange_def one_pos_def onej_def py_range_unit)

text \<open>
  Claim C5. With start and stop, whose coordinates are in the exact range, \<open>zrange\<close> lists
  the half-open rectangle from \<open>start\<close> up to but excluding \<open>stop\<close>, row by row (rows
  outer, columns inner, both ascending). The step left out is \<open>1 + 1j\<close> and the start left
  out is the origin. \<^verbatim>\<open>zrange(3+2j)\<close> is the six positions \<open>0, 1, 2, 1j, 1+1j, 2+1j\<close> in
  this order. No argument, or more than three, raise \<^verbatim>\<open>TypeError\<close>, the exception for a
  wrong argument count.
\<close>

theorem zrange_half_open_row_major:
  "(exact_coord (real_part start) \<and> exact_coord (real_part stop) \<and>
    exact_coord (imag_part start) \<and> exact_coord (imag_part stop)
    \<longrightarrow> zrange [start, stop] =
          Inr (concat (map (\<lambda>y. map (\<lambda>x. Pos x y) [real_part start .. real_part stop - 1])
                           [imag_part start .. imag_part stop - 1])))
   \<and> zrange [start, stop] = zrange [start, stop, 1 + onej]
   \<and> zrange [stop] = zrange [0, stop]
   \<and> zrange [Pos 3 2] = Inr [Pos 0 0, Pos 1 0, Pos 2 0, Pos 0 1, Pos 1 1, Pos 2 1]
   \<and> zrange [] = Inl TypeError
   \<and> zrange (a # b # c # e # rest) = Inl TypeError"
proof -
  have "zrange [Pos 3 2] = Inr [Pos 0 0, Pos 1 0, Pos 2 0, Pos 0 1, Pos 1 1, Pos 2 1]"
    by (simp add: zrange_def zero_pos_def one_pos_def onej_def py_range_unit upto.simps)
  moreover have "zrange [start, stop] = zrange [start, stop, 1 + onej]"
    and "zrange [stop] = zrange [0, stop]"
    and "zrange [] = Inl TypeError"
    and "zrange (a # b # c # e # rest) = Inl TypeError"
    by (simp_all add: zrange_def)
  ultimately show ?thesis using zrange_start_stop by simp
qed

theorem zrange_half_open_witness:
  "zrange [Pos 1 1, Pos 3 3] = Inr [Pos 1 1, Pos 2 1, Pos 1 2, Pos 2 2]"
proof -
  have h: "exact_coord (real_part (Pos 1 1)) \<and> exact_coord (real_part (Pos 3 3)) \<and>
           exact_coord (imag_part (Pos 1 1)) \<and> exact_coord (imag_part (Pos 3 3))"
    by (simp add: exact_coord_def)
  from zrange_half_open_row_major [of "Pos 1 1" "Pos 3 3"] h
  have "zrange [Pos 1 1, Pos 3 3] =
          Inr (concat (map (\<lambda>y. map (\<lambda>x. Pos x y) [real_part (Pos 1 1) .. real_part (Pos 3 3) - 1])
                           [imag_part (Pos 1 1) .. imag_part (Pos 3 3) - 1]))"
    by blast
  then show ?thesis by (simp add: upto.simps)
qed

section \<open>Properties of the neighbour query\<close>

text \<open>
  Claim C6. Let the coordinates of \<open>z\<close> and of the positions around it be in the exact
  range. With arity 4 the neighbours of \<open>z\<close> are \<open>z - 1j, z + 1, z + 1j, z - 1\<close> (up,
  right, down, left) in this order; with arity 8 they are the eight surrounding positions
  row by row from the row above, left to right, without the centre. Both lists are given
  as the source writes them and by their coordinates.
\<close>

theorem near_4_and_8_ordered:
  assumes "exact_coord (x - 1)" and "exact_coord (x + 1)"
    and "exact_coord (y - 1)" and "exact_coord (y + 1)"
  shows "ZGrid_near (Pos x y) 4 =
           Inr (Some [Pos x y - onej, Pos x y + 1, Pos x y + onej, Pos x y - 1])
       \<and> ZGrid_near (Pos x y) 8 =
           Inr (Some [Pos x y - 1 - onej, Pos x y - onej, Pos x y + 1 - onej,
                      Pos x y - 1, Pos x y + 1,
                      Pos x y - 1 + onej, Pos x y + onej, Pos x y + 1 + onej])
       \<and> ZGrid_near (Pos x y) 4 =
           Inr (Some [Pos x (y - 1), Pos (x + 1) y, Pos x (y + 1), Pos (x - 1) y])
       \<and> ZGrid_near (Pos x y) 8 =
           Inr (Some [Pos (x - 1) (y - 1), Pos x (y - 1), Pos (x + 1) (y - 1),
                      Pos (x - 1) y, Pos (x + 1) y,
                      Pos (x - 1) (y + 1), Pos x (y + 1), Pos (x + 1) (y + 1)])"
  by (simp add: ZGrid_near_def one_pos_def onej_def)

theorem near_4_and_8_witness:
  "ZGrid_near (Pos 0 0) 4 = Inr (Some [Pos 0 (- 1), Pos 1 0, Pos 0 1, Pos (- 1) 0])
   \<and> ZGrid_near (Pos 0 0) 8 =
       Inr (Some [Pos (- 1) (- 1), Pos 0 (- 1), Pos 1 (- 1), Pos (- 1) 0, Pos 1 0,
                  Pos (- 1) 1, Pos 0 1, Pos 1 1])"
proof -
  have h: "exact_coord (0 - 1)" "exact_coord (0 + 1)"
    by (simp_all add: exact_coord_def)
  from near_4_and_8_ordered [OF h h] show ?thesis by (simp add: one_pos_def onej_def)
qed

text \<open>
  Claim C8, as stated: an arity other than 4 and 8 makes the neighbour query fail with an
  invalid-arity error. The source has no such error: at arity 5 the call returns
  \<^verbatim>\<open>None\<close> and raises nothing.
\<close>

theorem near_arity_5_returns_None: "ZGrid_near (Pos 0 0) 5 = Inr None"
  by (simp add: ZGrid_near_def)

text \<open>
  Claim C8, amended: for every position and every arity other than 4 and 8 the neighbour
  query raises no error and returns \<^verbatim>\<open>None\<close>, which is neither a list of neighbours nor
  an empty list.
\<close>

theorem near_other_arity_returns_None:
  "n \<noteq> 4 \<Longrightarrow> n \<noteq> 8 \<Longrightarrow> ZGrid_near z n = Inr None"
  by (simp add: ZGrid_near_def)

theorem near_other_arity_witness:
  "(6::int) \<noteq> 4 \<and> (6::int) \<noteq> 8 \<and> ZGrid_near (Pos 2 3) 6 = Inr None"
  using near_other_arity_returns_None [of 6 "Pos 2 3"] by simp

section \<open>Properties of the value search\<close>

lemma z_loop_no_match:
  "\<forall>(k, v) \<in> set kvs. v \<noteq> val \<Longrightarrow> z_loop kvs val first zs = Positions zs"
  by (induction kvs val first zs rule: z_loop.induct) auto

text \<open>
  Claim C10. When no stored cell holds the value searched for, the search with
  \<open>first\<close> set returns the empty list, not a position and not an error: the same result as
  the search for all matches.
\<close>

theorem z_first_without_match_is_empty_list:
  "\<forall>(k, v) \<in> set (ZGrid_items self). v \<noteq> val \<Longrightarrow>
   ZGrid_z self val True = Positions [] \<and> ZGrid_z self val False = Positions []"
  by (simp add: ZGrid_z_def z_loop_no_match)

theorem z_first_without_match_witness:
  "ZGrid_z (ZGrid_init (Str ''#.'') CHR ''#'' CHR ''.'') CHR ''x'' True = Positions []
   \<and> ZGrid_z (ZGrid_init (Str ''#.'') CHR ''#'' CHR ''.'') CHR ''x'' False = Positions []"
proof -
  have items: "ZGrid_items (ZGrid_init (Str ''#.'') CHR ''#'' CHR ''.'')
                 = [(Pos 0 0, CHR ''#''), (Pos 1 0, CHR ''.'')]"
    by (simp add: ZGrid_items_def init_text_def init_line_def splitlines_def is_linebreak_def
        enumerate_eq_zip)
  have h: "\<forall>(k, v) \<in> set (ZGrid_items (ZGrid_init (Str ''#.'') CHR ''#'' CHR ''.'')). v \<noteq> CHR ''x''"
    unfolding items by simp
  show ?thesis using z_first_without_match_is_empty_list [OF h] .
qed

section \<open>Properties of the lazy mapping\<close>

lemma ZDict_getitem_stored:
  "map_of (items zd) z = Some v \<Longrightarrow> ZDict_getitem zd (NumKey z) = (Inr v, zd)"
  by (simp add: ZDict_getitem_def)

lemma ZDict_getitem_missing:
  "map_of (items zd) z = None \<Longrightarrow>
   ZDict_getitem zd (NumKey z) =
     (Inr (func zd z), zd\<lparr>items := AList.update z (func zd z) (items zd), calls := calls zd @ [z]\<rparr>)"
  by (simp add: ZDict_getitem_def ZDict_missing_def Let_def update_conv')

lemma ZDict_getitem_other: "ZDict_getitem zd OtherKey = (Inl NotImplementedError, zd)"
  by (simp add: ZDict_getitem_def ZDict_missing_def)

lemma ZDict_getitem_keeps:
  assumes "map_of (items zd) z = Some v"
  shows "map_of (items (snd (ZDict_getitem zd k))) z = Some v
       \<and> count_list (calls (snd (ZDict_getitem zd k))) z = count_list (calls zd) z
       \<and> func (snd (ZDict_getitem zd k)) = func zd"
proof (cases k)
  case OtherKey
  then show ?thesis using assms by (simp add: ZDict_getitem_other)
next
  case (NumKey z')
  show ?thesis
  proof (cases "map_of (items zd) z'")
    case None
    then have "z' \<noteq> z" using assms by auto
    then show ?thesis using assms None NumKey
      by (simp add: ZDict_getitem_missing update_conv')
  next
    case (Some w)
    then show ?thesis using assms NumKey by (simp add: ZDict_getitem_stored)
  qed
qed

lemma ZDict_reads_keeps:
  "map_of (items zd) z = Some v \<Longrightarrow>
     map_of (items (ZDict_reads zd ks)) z = Some v
   \<and> count_list (calls (ZDict_reads zd ks)) z = count_list (calls zd) z
   \<and> func (ZDict_reads zd ks) = func zd"
proof (induction ks arbitrary: zd)
  case Nil
  then show ?case by simp
next
  case (Cons k ks)
  from ZDict_getitem_keeps[OF Cons.prems, of k] Cons.IH[of "snd (ZDict_getitem zd k)"]
  show ?case by simp
qed

lemma ZDict_getitem_twice:
  "fst (ZDict_getitem (snd (ZDict_getitem zd (NumKey z))) (NumKey z)) = fst (ZDict_getitem zd (NumKey z))
   \<and> calls (snd (ZDict_getitem (snd (ZDict_getitem zd (NumKey z))) (NumKey z)))
       = calls (snd (ZDict_getitem zd (NumKey z)))"
proof (cases "map_of (items zd) z")
  case None
  have "map_of (items (snd (ZDict_getitem zd (NumKey z)))) z = Some (func zd z)"
    using None by (simp add: ZDict_getitem_missing update_conv')
  then show ?thesis using None by (simp add: ZDict_getitem_stored ZDict_getitem_missing)
next
  case (Some v)
  then show ?thesis by (simp add: ZDict_getitem_stored)
qed

text \<open>
  Claim C4. Take any backing function and any position not yet stored in the lazy
  mapping. The first read returns the function's value at the position, stores it, and
  calls the function once, on that position. A second read returns the same value and
  leaves the mapping, its trace of calls included, as it is. The same holds for a read
  after any further reads of other or the same keys: the value is the stored one and the
  function has been called on the position once more than before the first read.
\<close>

theorem ZDict_read_twice_calls_func_once:
  assumes "map_of (items zd) z = None"
  shows "fst (ZDict_getitem zd (NumKey z)) = Inr (func zd z)
       \<and> calls (snd (ZDict_getitem zd (NumKey z))) = calls zd @ [z]
       \<and> map_of (items (snd (ZDict_getitem zd (NumKey z)))) z = Some (func zd z)
       \<and> ZDict_getitem (snd (ZDict_getitem zd (NumKey z))) (NumKey z)
           = (Inr (func zd z), snd (ZDict_getitem zd (NumKey z)))
       \<and> fst (ZDict_getitem (ZDict_reads (snd (ZDict_getitem zd (NumKey z))) ks) (NumKey z))
           = Inr (func zd z)
       \<and> count_list
            (calls (snd (ZDict_getitem (ZDict_reads (snd (ZDict_getitem zd (NumKey z))) ks) (NumKey z)))) z
           = count_list (calls zd) z + 1"
proof -
  let ?zd1 = "snd (ZDict_getitem zd (NumKey z))"
  have st: "map_of (items ?zd1) z = Some (func zd z)"
    using assms by (simp add: ZDict_getitem_missing update_conv')
  have r1: "fst (ZDict_getitem zd (NumKey z)) = Inr (func zd z)"
    using assms by (simp add: ZDict_getitem_missing)
  have c1: "calls ?zd1 = calls zd @ [z]"
    using assms by (simp add: ZDict_getitem_missing)
  have r2: "ZDict_getitem ?zd1 (NumKey z) = (Inr (func zd z), ?zd1)"
    using st by (rule ZDict_getitem_stored)
  from ZDict_reads_keeps [OF st, of ks]
  have k: "map_of (items (ZDict_reads ?zd1 ks)) z = Some (func zd z)"
    and c: "count_list (calls (ZDict_reads ?zd1 ks)) z = count_list (calls ?zd1) z"
    by simp_all
  have r3: "fst (ZDict_getitem (ZDict_reads ?zd1 ks) (NumKey z)) = Inr (func zd z)"
    using k by (simp add: ZDict_getitem_stored)
  have c3: "count_list (calls (snd (ZDict_getitem (ZDict_reads ?zd1 ks) (NumKey z)))) z
              = count_list (calls zd) z + 1"
    using k c c1 by (simp add: ZDict_getitem_stored)
  from r1 c1 st r2 r3 c3 show ?thesis by blast
qed

theorem ZDict_read_twice_witness:
  "fst (ZDict_getitem \<lparr>func = (\<lambda>p. real_part p + imag_part p), items = [(Pos 0 0, 7)], calls = []\<rparr>
          (NumKey (Pos 2 3))) = Inr 5
   \<and> calls (snd (ZDict_getitem \<lparr>func = (\<lambda>p. real_part p + imag_part p), items = [(Pos 0 0, 7)], calls = []\<rparr>
          (NumKey (Pos 2 3)))) = [Pos 2 3]
   \<and> fst (ZDict_getitem
          (ZDict_reads
             (snd (ZDict_getitem \<lparr>func = (\<lambda>p. real_part p + imag_part p), items = [(Pos 0 0, 7)], calls = []\<rparr>
                     (NumKey (Pos 2 3))))
             [NumKey (Pos 1 1), NumKey (Pos 2 3), OtherKey])
          (NumKey (Pos 2 3))) = Inr 5"
proof -
  let ?zd = "\<lparr>func = (\<lambda>p. real_part p + imag_part p), items = [(Pos 0 0, 7::int)], calls = []\<rparr>"
  have h: "map_of (items ?zd) (Pos 2 3) = None" by simp
  show ?thesis
    using ZDict_read_twice_calls_func_once [OF h, of "[NumKey (Pos 1 1), NumKey (Pos 2 3), OtherKey]"]
    by simp
qed

section \<open>Properties of translation\<close>

lemma store_getitem_stored:
  "map_of (store_items s) z = Some g \<Longrightarrow> store_getitem s z = (Inr g, s)"
  by (cases s) (simp_all add: ZDict_getitem_stored)

lemma store_items_setitem:
  "store_items (store_setitem s z v) = AList.update z v (store_items s)"
  by (cases s) simp_all

lemma update_present:
  "distinct (map fst kvs) \<Longrightarrow> z \<in> fst ` set kvs \<Longrightarrow>
   AList.update z v kvs = map (\<lambda>(k, x). if k = z then (k, v) else (k, x)) kvs"
proof (induction kvs)
  case Nil
  then show ?case by simp
next
  case (Cons p kvs)
  obtain k x where p: "p = (k, x)" by (cases p)
  show ?case
  proof (cases "k = z")
    case True
    then have "z \<notin> fst ` set kvs" using Cons.prems p by auto
    then have "map (\<lambda>(k, x). if k = z then (k, v) else (k, x)) kvs = kvs"
      by (induction kvs) auto
    then show ?thesis using True p by simp
  next
    case False
    then show ?thesis using Cons p by auto
  qed
qed

lemma translate_loop_items:
  "distinct (map fst (store_items s)) \<Longrightarrow> distinct zs \<Longrightarrow> set zs \<subseteq> fst ` set (store_items s) \<Longrightarrow>
   \<exists>s'. translate_loop zs s table = Inr s' \<and>
        store_items s' =
          map (\<lambda>(k, g). if k \<in> set zs then (k, (case table g of None \<Rightarrow> g | Some g' \<Rightarrow> g')) else (k, g)) (store_items s)"
proof (induction zs arbitrary: s)
  case Nil
  then show ?case by (simp add: case_prod_unfold)
next
  case (Cons z zs)
  from Cons.prems obtain g where g: "map_of (store_items s) z = Some g"
    by (metis list.set_intros(1) map_of_eq_None_iff not_Some_eq subsetD)
  have get: "store_getitem s z = (Inr g, s)" using g by (rule store_getitem_stored)
  have zs: "distinct zs" "z \<notin> set zs" "set zs \<subseteq> fst ` set (store_items s)"
    using Cons.prems by auto
  show ?case
  proof (cases "table g")
    case None
    from Cons.IH[OF Cons.prems(1) zs(1) zs(3)] obtain s' where
      s': "translate_loop zs s table = Inr s'"
        "store_items s' = map (\<lambda>(k, g). if k \<in> set zs then (k, (case table g of None \<Rightarrow> g | Some g' \<Rightarrow> g')) else (k, g)) (store_items s)"
      by blast
    have "map (\<lambda>(k, g). if k \<in> set zs then (k, (case table g of None \<Rightarrow> g | Some g' \<Rightarrow> g')) else (k, g)) (store_items s)
        = map (\<lambda>(k, g). if k \<in> set (z # zs) then (k, (case table g of None \<Rightarrow> g | Some g' \<Rightarrow> g')) else (k, g)) (store_items s)"
    proof (rule map_cong[OF refl])
      fix p assume "p \<in> set (store_items s)"
      obtain k x where p: "p = (k, x)" by (cases p)
      have "k = z \<Longrightarrow> x = g" using g \<open>p \<in> set (store_items s)\<close> p Cons.prems(1)
        by (metis map_of_is_SomeI option.inject)
      then show "(case p of (k, g) \<Rightarrow> if k \<in> set zs then (k, (case table g of None \<Rightarrow> g | Some g' \<Rightarrow> g')) else (k, g))
               = (case p of (k, g) \<Rightarrow> if k \<in> set (z # zs) then (k, (case table g of None \<Rightarrow> g | Some g' \<Rightarrow> g')) else (k, g))"
        using p None by (auto split: option.splits)
    qed
    then show ?thesis using s' get None by simp
  next
    case (Some g')
    let ?s = "store_setitem s z g'"
    have zin: "z \<in> fst ` set (store_items s)" using Cons.prems by auto
    have items: "store_items ?s = map (\<lambda>(k, x). if k = z then (k, g') else (k, x)) (store_items s)"
      by (simp add: store_items_setitem update_present[OF Cons.prems(1) zin])
    have keys: "map fst (store_items ?s) = map fst (store_items s)"
      by (simp add: items case_prod_unfold comp_def)
    have d: "distinct (map fst (store_items ?s))" using Cons.prems(1) keys by simp
    have sub: "set zs \<subseteq> fst ` set (store_items ?s)"
      using zs(3) keys by (metis list.set_map)
    from Cons.IH[OF d zs(1) sub] obtain s' where
      s': "translate_loop zs ?s table = Inr s'"
        "store_items s' = map (\<lambda>(k, g). if k \<in> set zs then (k, (case table g of None \<Rightarrow> g | Some g' \<Rightarrow> g')) else (k, g)) (store_items ?s)"
      by blast
    have "map (\<lambda>(k, g). if k \<in> set zs then (k, (case table g of None \<Rightarrow> g | Some g' \<Rightarrow> g')) else (k, g)) (store_items ?s)
        = map (\<lambda>(k, g). if k \<in> set (z # zs) then (k, (case table g of None \<Rightarrow> g | Some g' \<Rightarrow> g')) else (k, g)) (store_items s)"
      unfolding items map_map
    proof (rule map_cong[OF refl])
      fix p assume "p \<in> set (store_items s)"
      obtain k x where p: "p = (k, x)" by (cases p)
      have "k = z \<Longrightarrow> x = g" using g \<open>p \<in> set (store_items s)\<close> p Cons.prems(1)
        by (metis map_of_is_SomeI option.inject)
      then show "((\<lambda>(k, g). if k \<in> set zs then (k, (case table g of None \<Rightarrow> g | Some g' \<Rightarrow> g')) else (k, g)) \<circ> (\<lambda>(k, x). if k = z then (k, g') else (k, x))) p
               = (case p of (k, g) \<Rightarrow> if k \<in> set (z # zs) then (k, (case table g of None \<Rightarrow> g | Some g' \<Rightarrow> g')) else (k, g))"
        using p Some zs(2) by (auto split: option.splits)
    qed
    then show ?thesis using s' get Some by simp
  qed
qed

text \<open>
  Claim C9. After \<open>translate\<close> the grid stores the same positions in the same order; the
  glyph of each is \<open>table[g]\<close> when its glyph \<open>g\<close> before the call is a key of the table and
  \<open>g\<close> itself otherwise. Each cell is rewritten at most once, from its glyph before the
  call, so entries of the table that chain are not followed. The call raises nothing, and
  \<open>on\<close> and \<open>off\<close> stay.
\<close>

theorem translate_rewrites_each_cell_once:
  assumes "wf_dict (ZGrid_items self)"
  shows "\<exists>self'. ZGrid_translate self table = Inr self' \<and>
           ZGrid_items self' =
             map (\<lambda>(k, g). (k, case table g of None \<Rightarrow> g | Some g' \<Rightarrow> g')) (ZGrid_items self) \<and>
           on self' = on self \<and> off self' = off self"
proof -
  have dk: "distinct (map fst (store_items (d self)))"
    using assms by (simp add: wf_dict_def ZGrid_items_def)
  from translate_loop_items [OF dk dk, of table] obtain s' where
    s': "translate_loop (map fst (store_items (d self))) (d self) table = Inr s'"
      "store_items s' =
         map (\<lambda>(k, g). if k \<in> set (map fst (store_items (d self)))
                        then (k, case table g of None \<Rightarrow> g | Some g' \<Rightarrow> g') else (k, g))
             (store_items (d self))"
    by auto
  have "map (\<lambda>(k, g). if k \<in> set (map fst (store_items (d self)))
                       then (k, case table g of None \<Rightarrow> g | Some g' \<Rightarrow> g') else (k, g))
            (store_items (d self))
      = map (\<lambda>(k, g). (k, case table g of None \<Rightarrow> g | Some g' \<Rightarrow> g')) (store_items (d self))"
    by (rule map_cong [OF refl]) force
  then show ?thesis using s' by (simp add: ZGrid_translate_def ZGrid_items_def)
qed

theorem translate_chain_witness:
  "\<exists>self'. ZGrid_translate (ZGrid_init (Str ''ab#'') CHR ''#'' CHR ''.'')
              [CHR ''a'' \<mapsto> CHR ''b'', CHR ''b'' \<mapsto> CHR ''c''] = Inr self'
     \<and> ZGrid_items self' = [(Pos 0 0, CHR ''b''), (Pos 1 0, CHR ''c''), (Pos 2 0, CHR ''#'')]"
proof -
  have items: "ZGrid_items (ZGrid_init (Str ''ab#'') CHR ''#'' CHR ''.'')
                 = [(Pos 0 0, CHR ''a''), (Pos 1 0, CHR ''b''), (Pos 2 0, CHR ''#'')]"
    by (simp add: ZGrid_items_def init_text_def init_line_def splitlines_def is_linebreak_def
        enumerate_eq_zip)
  have h: "wf_dict (ZGrid_items (ZGrid_init (Str ''ab#'') CHR ''#'' CHR ''.''))"
    unfolding items by (simp add: wf_dict_def)
  show ?thesis
    using translate_rewrites_each_cell_once [OF h, of "[CHR ''a'' \<mapsto> CHR ''b'', CHR ''b'' \<mapsto> CHR ''c'']"]
    unfolding items by simp blast
qed

section \<open>Properties of the breadth-first search\<close>

lemma ZDict_getitem_num_cases:
  "ZDict_getitem zd (NumKey z) =
     (case map_of (items zd) z of
        Some v \<Rightarrow> (Inr v, zd)
      | None \<Rightarrow> (Inr (func zd z), zd\<lparr>items := AList.update z (func zd z) (items zd), calls := calls zd @ [z]\<rparr>))"
  by (simp add: ZDict_getitem_def ZDict_missing_def Let_def update_conv' split: option.splits)

lemma store_getitem_error: "fst (store_getitem s z) = Inl e \<Longrightarrow> e = KeyError"
  by (cases s) (auto simp: ZDict_getitem_num_cases split: option.splits)

lemma store_getitem_again:
  "fst (store_getitem (snd (store_getitem s z')) z) = fst (store_getitem s z)"
  by (cases s) (auto simp: ZDict_getitem_num_cases update_conv' split: option.splits)

lemma ZGrid_getitem_split:
  "ZGrid_getitem self z = (fst (store_getitem (d self) z), self\<lparr>d := snd (store_getitem (d self) z)\<rparr>)"
  by (simp add: ZGrid_getitem_def split: prod.splits)

lemma ZGrid_getitem_on: "on (snd (ZGrid_getitem self z)) = on self"
  by (simp add: ZGrid_getitem_split)

lemma ZGrid_getitem_error: "fst (ZGrid_getitem self z) = Inl e \<Longrightarrow> e = KeyError"
  using store_getitem_error [of "d self" z e] by (simp add: ZGrid_getitem_split)

lemma ZGrid_getitem_again:
  "fst (ZGrid_getitem (snd (ZGrid_getitem self z')) z) = fst (ZGrid_getitem self z)"
  by (simp add: ZGrid_getitem_split store_getitem_again)

lemma set_update_subset: "set (AList.update k v al) \<subseteq> insert (k, v) (set al)"
  by (induction al) auto

lemma bfs_scan_queue:
  "\<exists>self'. bfs_scan self seen depth zs queue =
       (Inr (queue @ map (\<lambda>z. (z, depth + 1))
               (filter (\<lambda>z. map_of seen z = None \<and> fst (ZGrid_getitem self z) = Inr (on self)) zs)),
        self')
     \<and> on self' = on self
     \<and> (\<forall>z. fst (ZGrid_getitem self' z) = fst (ZGrid_getitem self z))"
proof (induction zs arbitrary: self queue)
  case Nil
  then show ?case by simp
next
  case (Cons z zs)
  show ?case
  proof (cases "map_of seen z = None")
    case False
    then show ?thesis using Cons.IH [of self queue] by auto
  next
    case True
    obtain r self1 where g: "ZGrid_getitem self z = (r, self1)" by (cases "ZGrid_getitem self z")
    have on1: "on self1 = on self" using ZGrid_getitem_on [of self z] g by simp
    have again: "\<And>z'. fst (ZGrid_getitem self1 z') = fst (ZGrid_getitem self z')"
      using ZGrid_getitem_again [of self z] g by simp
    show ?thesis
    proof (cases r)
      case (Inl e)
      then have "e = KeyError" using ZGrid_getitem_error [of self z e] g by simp
      then show ?thesis using Cons.IH [of self1 queue] True g Inl on1 again by auto
    next
      case (Inr gl)
      show ?thesis
      proof (cases "gl = on self")
        case True
        then show ?thesis
          using Cons.IH [of self1 "queue @ [(z, depth + 1)]"] \<open>map_of seen z = None\<close> g Inr on1 again
          by auto
      next
        case False
        then show ?thesis
          using Cons.IH [of self1 queue] \<open>map_of seen z = None\<close> g Inr on1 again by auto
      qed
    qed
  qed
qed

lemma bfs_loop_Nil: "bfs_loop self target max_depth seen [] = Some (Inr seen, self)"
  by (subst bfs_loop.simps) simp

lemma bfs_loop_over:
  "k < depth \<Longrightarrow> bfs_loop self target (Some k) seen ((z0, depth) # queue) = Some (Inr seen, self)"
  by (subst bfs_loop.simps) simp

lemma bfs_loop_seen:
  "\<not> k < depth \<Longrightarrow> map_of seen z0 \<noteq> None \<Longrightarrow>
   bfs_loop self target (Some k) seen ((z0, depth) # queue) = bfs_loop self target (Some k) seen queue"
  by (subst bfs_loop.simps) simp

lemma bfs_loop_target:
  "\<not> k < depth \<Longrightarrow> map_of seen z0 = None \<Longrightarrow>
   bfs_loop self (Some z0) (Some k) seen ((z0, depth) # queue) = Some (Inr (AList.update z0 depth seen), self)"
  by (subst bfs_loop.simps) simp

lemma bfs_loop_expand:
  "\<not> k < depth \<Longrightarrow> map_of seen z0 = None \<Longrightarrow> target \<noteq> Some z0 \<Longrightarrow>
   bfs_scan self (AList.update z0 depth seen) depth [z0 - onej, z0 + 1, z0 + onej, z0 - 1] queue = (Inr queue', self') \<Longrightarrow>
   bfs_loop self target (Some k) seen ((z0, depth) # queue) = bfs_loop self' target (Some k) (AList.update z0 depth seen) queue'"
  by (subst bfs_loop.simps) (simp add: ZGrid_near_def)

lemma manhattan_near:
  "z' \<in> set [z - onej, z + 1, z + onej, z - 1] \<Longrightarrow> manhattan z' c \<le> manhattan z c + 1"
  by (cases z; cases c) (auto simp: manhattan_def one_pos_def onej_def)

lemma finite_ball: "finite {z. manhattan z c \<le> k}"
proof -
  have "{z. manhattan z c \<le> k}
      \<subseteq> (\<lambda>(x, y). Pos x y) ` ({real_part c - k .. real_part c + k} \<times> {imag_part c - k .. imag_part c + k})"
  proof
    fix z assume "z \<in> {z. manhattan z c \<le> k}"
    then have "manhattan z c \<le> k" by simp
    then have "real_part z \<in> {real_part c - k .. real_part c + k}"
      "imag_part z \<in> {imag_part c - k .. imag_part c + k}"
      by (auto simp: manhattan_def)
    then have "(real_part z, imag_part z) \<in> {real_part c - k .. real_part c + k} \<times> {imag_part c - k .. imag_part c + k}"
      by simp
    then show "z \<in> (\<lambda>(x, y). Pos x y) ` ({real_part c - k .. real_part c + k} \<times> {imag_part c - k .. imag_part c + k})"
      by (metis (mono_tags, lifting) case_prod_conv image_eqI pos.collapse)
  qed
  then show ?thesis by (rule finite_subset) simp
qed

lemma bfs_loop_bounded:
  assumes "\<forall>(z, dep) \<in> set queue. 0 \<le> dep \<and> manhattan z c \<le> dep"
    and "\<forall>(z, dep) \<in> set seen. 0 \<le> dep \<and> dep \<le> k"
  shows "\<exists>seen' self'. bfs_loop self target (Some k) seen queue = Some (Inr seen', self')
           \<and> (\<forall>(z, dep) \<in> set seen'. 0 \<le> dep \<and> dep \<le> k)"
  using assms
proof (induction "card ({z. manhattan z c \<le> k} - fst ` set seen)" arbitrary: self seen queue rule: less_induct)
  case less
  show ?case using less.prems
  proof (induction queue)
    case Nil
    then show ?case by (simp add: bfs_loop_Nil)
  next
    case (Cons e queue)
    obtain z0 depth where e: "e = (z0, depth)" by (cases e)
    have q: "\<forall>(z, dep) \<in> set queue. 0 \<le> dep \<and> manhattan z c \<le> dep" using Cons.prems(1) by simp
    have e0: "0 \<le> depth" "manhattan z0 c \<le> depth" using Cons.prems(1) e by auto
    show ?case
    proof (cases "k < depth")
      case True
      then show ?thesis using Cons.prems(2) e by (simp add: bfs_loop_over)
    next
      case notover: False
      show ?thesis
      proof (cases "map_of seen z0 = None")
        case False
        then show ?thesis using Cons.IH [OF q Cons.prems(2)] notover e by (simp add: bfs_loop_seen)
      next
        case unseen: True
        let ?seen = "AList.update z0 depth seen"
        have inv: "\<forall>(z, dep) \<in> set ?seen. 0 \<le> dep \<and> dep \<le> k"
          using Cons.prems(2) e0 notover set_update_subset [of z0 depth seen] by fastforce
        show ?thesis
        proof (cases "target = Some z0")
          case True
          then show ?thesis using inv notover unseen e by (simp add: bfs_loop_target)
        next
          case False
          from bfs_scan_queue [of self ?seen depth "[z0 - onej, z0 + 1, z0 + onej, z0 - 1]" queue]
          obtain self' where
            scan: "bfs_scan self ?seen depth [z0 - onej, z0 + 1, z0 + onej, z0 - 1] queue =
              (Inr (queue @ map (\<lambda>z. (z, depth + 1))
                 (filter (\<lambda>z. map_of ?seen z = None \<and> fst (ZGrid_getitem self z) = Inr (on self))
                    [z0 - onej, z0 + 1, z0 + onej, z0 - 1])), self')"
            by blast
          let ?queue = "queue @ map (\<lambda>z. (z, depth + 1))
                 (filter (\<lambda>z. map_of ?seen z = None \<and> fst (ZGrid_getitem self z) = Inr (on self))
                    [z0 - onej, z0 + 1, z0 + onej, z0 - 1])"
          have q': "\<forall>(z, dep) \<in> set ?queue. 0 \<le> dep \<and> manhattan z c \<le> dep"
          proof -
            have "\<And>z'. z' \<in> set [z0 - onej, z0 + 1, z0 + onej, z0 - 1] \<Longrightarrow> manhattan z' c \<le> depth + 1"
              using manhattan_near [of _ z0 c] e0(2) by fastforce
            then show ?thesis using q e0(1) by auto
          qed
          have z0in: "z0 \<in> {z. manhattan z c \<le> k} - fst ` set seen"
            using e0(2) notover unseen by (auto simp: map_of_eq_None_iff)
          have keys: "fst ` set ?seen = insert z0 (fst ` set seen)"
            by (simp add: dom_update)
          have "card ({z. manhattan z c \<le> k} - fst ` set ?seen) < card ({z. manhattan z c \<le> k} - fst ` set seen)"
          proof (rule psubset_card_mono)
            show "finite ({z. manhattan z c \<le> k} - fst ` set seen)" using finite_ball by simp
            show "{z. manhattan z c \<le> k} - fst ` set ?seen \<subset> {z. manhattan z c \<le> k} - fst ` set seen"
              using z0in keys by auto
          qed
          from less.hyps [OF this q' inv, of self']
          show ?thesis using scan notover unseen False e by (simp add: bfs_loop_expand)
        qed
      qed
    qed
  qed
qed

lemma manhattan_self: "manhattan z z = 0"
  by (simp add: manhattan_def)

lemma map_of_constant:
  assumes "set kvs = (\<lambda>p. (p, v)) ` S"
  shows "map_of kvs p = (if p \<in> S then Some v else None)"
proof (cases "p \<in> S")
  case True
  then have "p \<in> fst ` set kvs" using assms by force
  then obtain w where w: "map_of kvs p = Some w"
    by (metis map_of_eq_None_iff not_Some_eq)
  then have "(p, w) \<in> set kvs" by (rule map_of_SomeD)
  then have "w = v" using assms by auto
  then show ?thesis using w True by simp
next
  case False
  then have "p \<notin> fst ` set kvs" using assms by force
  then show ?thesis using False by (simp add: map_of_eq_None_iff)
qed

lemma ZGrid_getitem_plain:
  "d self = PlainDict kvs \<Longrightarrow>
   ZGrid_getitem self z = (case map_of kvs z of None \<Rightarrow> (Inl KeyError, self) | Some v \<Rightarrow> (Inr v, self))"
  by (simp add: ZGrid_getitem_def split: option.splits)

lemma bfs_loop_unlimited:
  "bfs_loop self None None seen ((z0, depth) # queue) =
     (if map_of seen z0 \<noteq> None then bfs_loop self None None seen queue
      else (case bfs_scan self (AList.update z0 depth seen) depth [z0 - onej, z0 + 1, z0 + onej, z0 - 1] queue of
              (Inl e, self') \<Rightarrow> Some (Inl e, self')
            | (Inr queue', self') \<Rightarrow> bfs_loop self' None None (AList.update z0 depth seen) queue'))"
  by (subst bfs_loop.simps) (simp add: ZGrid_near_def Let_def del: bfs_scan.simps)

lemma bfs_3x3_plain:
  assumes plain: "d self = PlainDict kvs"
    and cells: "set kvs = (\<lambda>p. (p, on self)) `
        {Pos (x - 1) (y - 1), Pos x (y - 1), Pos (x + 1) (y - 1),
         Pos (x - 1) y, Pos x y, Pos (x + 1) y,
         Pos (x - 1) (y + 1), Pos x (y + 1), Pos (x + 1) (y + 1)}"
  shows "ZGrid_bfs self None (Pos x y) None =
     Some (Inr [(Pos x y, 0),
                (Pos x (y - 1), 1), (Pos (x + 1) y, 1), (Pos x (y + 1), 1), (Pos (x - 1) y, 1),
                (Pos (x + 1) (y - 1), 2), (Pos (x - 1) (y - 1), 2),
                (Pos (x + 1) (y + 1), 2), (Pos (x - 1) (y + 1), 2)], self)"
proof -
  note get = ZGrid_getitem_plain [OF plain] map_of_constant [OF cells]
  show ?thesis
    by (simp add: ZGrid_bfs_def get bfs_loop_unlimited bfs_loop_Nil one_pos_def onej_def)
qed

lemma bfs_start_not_on:
  assumes "fst (ZGrid_getitem self z0) = Inr g" and "g \<noteq> on self"
  shows "ZGrid_bfs self target z0 max_depth = Some (Inl NotImplementedError, snd (ZGrid_getitem self z0))"
proof -
  obtain self1 where g: "ZGrid_getitem self z0 = (Inr g, self1)"
    using assms(1) by (cases "ZGrid_getitem self z0") simp
  have "on self1 = on self" using ZGrid_getitem_on [of self z0] g by simp
  then show ?thesis using g assms(2) by (simp add: ZGrid_bfs_def)
qed

text \<open>
  Claim C1. Let a grid over a plain dictionary store exactly the nine cells of the 3x3
  square around \<open>Pos x y\<close>, in any order, each with the glyph \<open>on\<close>. The search from the
  centre with no target and no depth limit returns, and its map holds the nine positions:
  the centre at depth 0, then its upper, right, lower and left neighbour at depth 1, then
  the four corners at depth 2. The grid is unchanged. On any grid, a search started at a
  cell whose glyph is not \<open>on\<close> raises \<^verbatim>\<open>NotImplementedError\<close> and returns no map.
\<close>

theorem bfs_3x3_depths_and_start_check:
  "(d self = PlainDict kvs \<and>
    set kvs = (\<lambda>p. (p, on self)) `
        {Pos (x - 1) (y - 1), Pos x (y - 1), Pos (x + 1) (y - 1),
         Pos (x - 1) y, Pos x y, Pos (x + 1) y,
         Pos (x - 1) (y + 1), Pos x (y + 1), Pos (x + 1) (y + 1)}
    \<longrightarrow> ZGrid_bfs self None (Pos x y) None =
          Some (Inr [(Pos x y, 0),
                     (Pos x (y - 1), 1), (Pos (x + 1) y, 1), (Pos x (y + 1), 1), (Pos (x - 1) y, 1),
                     (Pos (x + 1) (y - 1), 2), (Pos (x - 1) (y - 1), 2),
                     (Pos (x + 1) (y + 1), 2), (Pos (x - 1) (y + 1), 2)], self))
   \<and> (fst (ZGrid_getitem other z0) = Inr g \<and> g \<noteq> on other
    \<longrightarrow> ZGrid_bfs other target z0 max_depth =
          Some (Inl NotImplementedError, snd (ZGrid_getitem other z0)))"
  using bfs_3x3_plain [of self kvs x y] bfs_start_not_on [of other z0 g target max_depth] by blast

theorem bfs_3x3_witness:
  "ZGrid_bfs (ZGrid_init (Str ''###
###
###'') CHR ''#'' CHR ''.'') None (Pos 1 1) None =
     Some (Inr [(Pos 1 1, 0), (Pos 1 0, 1), (Pos 2 1, 1), (Pos 1 2, 1), (Pos 0 1, 1),
                (Pos 2 0, 2), (Pos 0 0, 2), (Pos 2 2, 2), (Pos 0 2, 2)],
           ZGrid_init (Str ''###
###
###'') CHR ''#'' CHR ''.'')
   \<and> ZGrid_bfs (ZGrid_init (Str ''#.'') CHR ''#'' CHR ''.'') None (Pos 1 0) (Some 3) =
     Some (Inl NotImplementedError, ZGrid_init (Str ''#.'') CHR ''#'' CHR ''.'')"
proof -
  let ?G = "ZGrid_init (Str ''###
###
###'') CHR ''#'' CHR ''.''"
  let ?kvs = "[(Pos 0 0, CHR ''#''), (Pos 1 0, CHR ''#''), (Pos 2 0, CHR ''#''),
               (Pos 0 1, CHR ''#''), (Pos 1 1, CHR ''#''), (Pos 2 1, CHR ''#''),
               (Pos 0 2, CHR ''#''), (Pos 1 2, CHR ''#''), (Pos 2 2, CHR ''#'')]"
  let ?H = "ZGrid_init (Str ''#.'') CHR ''#'' CHR ''.''"
  have G: "?G = \<lparr>on = CHR ''#'', off = CHR ''.'', d = PlainDict ?kvs\<rparr>"
    by (simp add: init_text_def init_line_def splitlines_def is_linebreak_def enumerate_eq_zip)
  have H: "?H = \<lparr>on = CHR ''#'', off = CHR ''.'',
                 d = PlainDict [(Pos 0 0, CHR ''#''), (Pos 1 0, CHR ''.'')]\<rparr>"
    by (simp add: init_text_def init_line_def splitlines_def is_linebreak_def enumerate_eq_zip)
  have h1: "d ?G = PlainDict ?kvs \<and>
    set ?kvs = (\<lambda>p. (p, on ?G)) `
        {Pos (1 - 1) (1 - 1), Pos 1 (1 - 1), Pos (1 + 1) (1 - 1),
         Pos (1 - 1) 1, Pos 1 1, Pos (1 + 1) 1,
         Pos (1 - 1) (1 + 1), Pos 1 (1 + 1), Pos (1 + 1) (1 + 1)}"
    unfolding G by simp
  have h2: "fst (ZGrid_getitem ?H (Pos 1 0)) = Inr CHR ''.'' \<and> CHR ''.'' \<noteq> on ?H"
    unfolding H by (simp add: ZGrid_getitem_def)
  have s2: "snd (ZGrid_getitem ?H (Pos 1 0)) = ?H"
    unfolding H by (simp add: ZGrid_getitem_def)
  from bfs_3x3_depths_and_start_check
         [of ?G ?kvs 1 1 ?H "Pos 1 0" "CHR ''.''" None "Some 3"] h1 h2
  have "ZGrid_bfs ?G None (Pos 1 1) None =
          Some (Inr [(Pos 1 1, 0),
                     (Pos 1 (1 - 1), 1), (Pos (1 + 1) 1, 1), (Pos 1 (1 + 1), 1), (Pos (1 - 1) 1, 1),
                     (Pos (1 + 1) (1 - 1), 2), (Pos (1 - 1) (1 - 1), 2),
                     (Pos (1 + 1) (1 + 1), 2), (Pos (1 - 1) (1 + 1), 2)], ?G)"
    and "ZGrid_bfs ?H None (Pos 1 0) (Some 3) = Some (Inl NotImplementedError, snd (ZGrid_getitem ?H (Pos 1 0)))"
    by blast+
  then show ?thesis using s2 by simp
qed

text \<open>
  Claim C7. On every grid, plain or lazy, a search with depth limit \<open>k\<close> from a start
  cell that holds \<open>on\<close> returns, and every depth in the map it returns is between 0 and
  \<open>k\<close>, whatever the target. The loop stops at the first entry taken from the queue whose
  depth exceeds \<open>k\<close>: it returns the map as it is at that moment, with every entry recorded
  before and without the entry that overflows.
\<close>

theorem bfs_max_depth_bounds_depths:
  assumes "fst (ZGrid_getitem self z0) = Inr (on self)"
  shows "(\<exists>seen self'. ZGrid_bfs self target z0 (Some k) = Some (Inr seen, self')
            \<and> (\<forall>(z, dep) \<in> set seen. 0 \<le> dep \<and> dep \<le> k))
       \<and> (k < depth \<longrightarrow>
            bfs_loop grid target (Some k) seen0 ((z, depth) # queue) = Some (Inr seen0, grid))"
proof -
  obtain self1 where g: "ZGrid_getitem self z0 = (Inr (on self), self1)"
    using assms by (cases "ZGrid_getitem self z0") simp
  have on1: "on self1 = on self" using ZGrid_getitem_on [of self z0] g by simp
  have "\<exists>seen' self'. bfs_loop self1 target (Some k) [] [(z0, 0)] = Some (Inr seen', self')
           \<and> (\<forall>(z, dep) \<in> set seen'. 0 \<le> dep \<and> dep \<le> k)"
    by (rule bfs_loop_bounded [where c = z0]) (simp_all add: manhattan_self)
  then have "\<exists>seen self'. ZGrid_bfs self target z0 (Some k) = Some (Inr seen, self')
            \<and> (\<forall>(z, dep) \<in> set seen. 0 \<le> dep \<and> dep \<le> k)"
    using g on1 by (simp add: ZGrid_bfs_def)
  then show ?thesis using bfs_loop_over [of k depth grid target seen0 z queue] by blast
qed

theorem bfs_max_depth_witness:
  "\<exists>seen self'.
      ZGrid_bfs (ZGrid_init (Callable (\<lambda>p. CHR ''#'')) CHR ''#'' CHR ''.'') None (Pos 0 0) (Some 2)
        = Some (Inr seen, self')
      \<and> (\<forall>(z, dep) \<in> set seen. 0 \<le> dep \<and> dep \<le> 2)"
proof -
  have h: "fst (ZGrid_getitem (ZGrid_init (Callable (\<lambda>p. CHR ''#'')) CHR ''#'' CHR ''.'') (Pos 0 0))
             = Inr (on (ZGrid_init (Callable (\<lambda>p. CHR ''#'')) CHR ''#'' CHR ''.''))"
    by (simp add: ZGrid_getitem_def ZDict_getitem_num_cases)
  from bfs_max_depth_bounds_depths [OF h, of None 2] show ?thesis by blast
qed

section \<open>Properties of the graph builder\<close>

lemma graph_loop_cong:
  "on a = on b \<Longrightarrow> ZGrid_items a = ZGrid_items b \<Longrightarrow>
   graph_loop kvs a extras G = graph_loop kvs b extras G"
proof (induction kvs arbitrary: G)
  case Nil
  then show ?case by simp
next
  case (Cons e kvs)
  obtain p glyph where e: "e = (p, glyph)" by (cases e)
  have get: "dict_get (d a) = dict_get (d b)"
    using Cons.prems by (simp add: dict_get_def ZGrid_items_def store_get_def fun_eq_iff)
  show ?case using Cons e get by (simp add: Let_def)
qed

lemma ZGrid_graph_plain:
  "ZGrid_graph self extras =
   ZGrid_graph \<lparr>on = on self, off = off self, d = PlainDict (ZGrid_items self)\<rparr> extras"
  unfolding ZGrid_graph_def
  by (simp add: ZGrid_items_def graph_loop_cong [of self "\<lparr>on = on self, off = off self, d = PlainDict (store_items (d self))\<rparr>"])

lemma three_cells_orders:
  assumes "distinct (map fst kvs)" and "set kvs = {a, b, c}"
    and "fst a \<noteq> fst b" "fst a \<noteq> fst c" "fst b \<noteq> fst c"
  shows "kvs \<in> {[a, b, c], [a, c, b], [b, a, c], [b, c, a], [c, a, b], [c, b, a]}"
proof -
  have dk: "distinct kvs" using assms(1) by (rule distinct_map [THEN iffD1, THEN conjunct1])
  have abc: "a \<noteq> b" "a \<noteq> c" "b \<noteq> c" using assms(3-5) by auto
  have "card (set kvs) = 3" using assms(2) abc by simp
  then have "length kvs = 3" using dk by (simp add: distinct_card)
  then obtain u v w where kvs: "kvs = [u, v, w]"
    by (auto simp: numeral_3_eq_3 length_Suc_conv)
  have "u \<noteq> v" "u \<noteq> w" "v \<noteq> w" using dk kvs by auto
  moreover have "{u, v, w} = {a, b, c}" using assms(2) kvs by simp
  moreover have "u \<in> {a, b, c}" "v \<in> {a, b, c}" "w \<in> {a, b, c}"
    using \<open>{u, v, w} = {a, b, c}\<close> by auto
  ultimately show ?thesis unfolding kvs by auto
qed

lemma ZGrid_delitem_items:
  assumes "map_of (ZGrid_items self) z \<noteq> None"
  shows "\<exists>self'. ZGrid_delitem self z = Inr self' \<and> ZGrid_items self' = AList.delete z (ZGrid_items self)
           \<and> on self' = on self \<and> off self' = off self"
  using assms by (cases "d self") (auto simp: ZGrid_delitem_def ZGrid_items_def)

lemma add_node_rec:
  "add_node n \<lparr>adj = A, extra = E\<rparr> = \<lparr>adj = (if map_of A n = None then A @ [(n, [])] else A), extra = E\<rparr>"
  by (simp add: add_node_def)

lemma add_edge_rec:
  "add_edge u v \<lparr>adj = A, extra = E\<rparr> =
     \<lparr>adj = add_neighbour v u (add_neighbour u v
        (adj (add_node v (add_node u \<lparr>adj = A, extra = E\<rparr>)))), extra = E\<rparr>"
  by (simp add: add_edge_def Let_def add_node_def)

lemmas graph_eval = ZGrid_graph_def ZGrid_items_def add_edge_rec add_node_rec add_neighbour_def
  is_node_glyph_def dict_get_def store_get_def one_pos_def onej_def Let_def

lemma line_graph:
  assumes "kvs \<in> {[a, b, c], [a, c, b], [b, a, c], [b, c, a], [c, a, b], [c, b, a]}"
    and "a = (Pos x y, Some g)" "b = (Pos (x + 1) y, Some g)" "c = (Pos (x + 2) y, Some g)"
  shows "set (map fst (adj (ZGrid_graph \<lparr>on = Some g, off = h, d = PlainDict kvs\<rparr> []))) = {Pos x y, Pos (x + 1) y, Pos (x + 2) y}
       \<and> set (neighbours (ZGrid_graph \<lparr>on = Some g, off = h, d = PlainDict kvs\<rparr> []) (Pos x y)) = {Pos (x + 1) y}
       \<and> set (neighbours (ZGrid_graph \<lparr>on = Some g, off = h, d = PlainDict kvs\<rparr> []) (Pos (x + 1) y)) = {Pos x y, Pos (x + 2) y}
       \<and> set (neighbours (ZGrid_graph \<lparr>on = Some g, off = h, d = PlainDict kvs\<rparr> []) (Pos (x + 2) y)) = {Pos (x + 1) y}
       \<and> ZGrid_path_length \<lparr>on = Some g, off = h, d = PlainDict kvs\<rparr> (Pos (x + 2) y) (Pos x y) = Inr 2
       \<and> ZGrid_path_length \<lparr>on = Some g, off = h, d = PlainDict (AList.delete (Pos (x + 1) y) kvs)\<rparr> (Pos (x + 2) y) (Pos x y) = Inl NetworkXNoPath"
  using assms(1) unfolding assms(2-4)
  apply (elim insertE emptyE)
  subgoal by (auto simp: graph_eval ZGrid_path_length_def neighbours_def shortest_path_length_def AList.delete_eq)
  subgoal by (auto simp: graph_eval ZGrid_path_length_def neighbours_def shortest_path_length_def AList.delete_eq)
  subgoal by (auto simp: graph_eval ZGrid_path_length_def neighbours_def shortest_path_length_def AList.delete_eq)
  subgoal by (auto simp: graph_eval ZGrid_path_length_def neighbours_def shortest_path_length_def AList.delete_eq)
  subgoal by (auto simp: graph_eval ZGrid_path_length_def neighbours_def shortest_path_length_def AList.delete_eq)
  subgoal by (auto simp: graph_eval ZGrid_path_length_def neighbours_def shortest_path_length_def AList.delete_eq)
  done


lemma ZGrid_path_length_plain:
  "ZGrid_path_length self z z0 =
   ZGrid_path_length \<lparr>on = on self, off = off self, d = PlainDict (ZGrid_items self)\<rparr> z z0"
  unfolding ZGrid_path_length_def by (subst ZGrid_graph_plain) simp

text \<open>
  Claim C2. Let a grid store exactly the three cells \<open>p\<close>, \<open>p + 1\<close>, \<open>p + 2\<close> of a
  horizontal line, in any order, each with the glyph \<open>on\<close>, which is not \<^verbatim>\<open>None\<close>; let
  the coordinates of the cells and of their right and lower neighbours be in the exact
  range. The graph built with no extra glyphs has these three nodes, \<open>p\<close> and \<open>p + 2\<close>
  have the one neighbour \<open>p + 1\<close>, and \<open>p + 1\<close> has the neighbours \<open>p\<close> and \<open>p + 2\<close>: the
  path graph. The shortest path length from \<open>p\<close> to \<open>p + 2\<close> is 2. Deleting the cell
  \<open>p + 1\<close> succeeds, and on the grid left the same query raises \<^verbatim>\<open>NetworkXNoPath\<close>.
\<close>

theorem line_of_three_is_path_graph:
  assumes "wf_dict (ZGrid_items self)"
    and "set (ZGrid_items self) =
           {(Pos x y, on self), (Pos (x + 1) y, on self), (Pos (x + 2) y, on self)}"
    and "on self \<noteq> None"
    and "exact_coord x" and "exact_coord (x + 3)" and "exact_coord y" and "exact_coord (y + 1)"
  shows "set (map fst (adj (ZGrid_graph self []))) = {Pos x y, Pos (x + 1) y, Pos (x + 2) y}
       \<and> set (neighbours (ZGrid_graph self []) (Pos x y)) = {Pos (x + 1) y}
       \<and> set (neighbours (ZGrid_graph self []) (Pos (x + 1) y)) = {Pos x y, Pos (x + 2) y}
       \<and> set (neighbours (ZGrid_graph self []) (Pos (x + 2) y)) = {Pos (x + 1) y}
       \<and> ZGrid_path_length self (Pos (x + 2) y) (Pos x y) = Inr 2
       \<and> (\<exists>self'. ZGrid_delitem self (Pos (x + 1) y) = Inr self'
             \<and> ZGrid_path_length self' (Pos (x + 2) y) (Pos x y) = Inl NetworkXNoPath)"
proof -
  obtain g where g: "on self = Some g" using assms(3) by auto
  let ?kvs = "ZGrid_items self"
  let ?a = "(Pos x y, Some g)" and ?b = "(Pos (x + 1) y, Some g)" and ?c = "(Pos (x + 2) y, Some g)"
  have orders: "?kvs \<in> {[?a, ?b, ?c], [?a, ?c, ?b], [?b, ?a, ?c], [?b, ?c, ?a], [?c, ?a, ?b], [?c, ?b, ?a]}"
    using assms(1,2) unfolding g by (intro three_cells_orders) (simp_all add: wf_dict_def)
  note line = line_graph [OF orders refl refl refl, of "off self"]
  have mid: "map_of ?kvs (Pos (x + 1) y) \<noteq> None"
    using assms(2) by (simp add: map_of_eq_None_iff image_iff)
  from ZGrid_delitem_items [OF mid] obtain self' where
    del: "ZGrid_delitem self (Pos (x + 1) y) = Inr self'"
      "ZGrid_items self' = AList.delete (Pos (x + 1) y) ?kvs"
      "on self' = on self" "off self' = off self"
    by blast
  have "ZGrid_path_length self' (Pos (x + 2) y) (Pos x y) = Inl NetworkXNoPath"
    using line del(2-4) g by (subst ZGrid_path_length_plain) simp
  then have "\<exists>self'. ZGrid_delitem self (Pos (x + 1) y) = Inr self'
             \<and> ZGrid_path_length self' (Pos (x + 2) y) (Pos x y) = Inl NetworkXNoPath"
    using del(1) by blast
  moreover have "ZGrid_path_length self (Pos (x + 2) y) (Pos x y) = Inr 2"
    using line g by (subst ZGrid_path_length_plain) simp
  moreover have "set (map fst (adj (ZGrid_graph self []))) = {Pos x y, Pos (x + 1) y, Pos (x + 2) y}"
    "set (neighbours (ZGrid_graph self []) (Pos x y)) = {Pos (x + 1) y}"
    "set (neighbours (ZGrid_graph self []) (Pos (x + 1) y)) = {Pos x y, Pos (x + 2) y}"
    "set (neighbours (ZGrid_graph self []) (Pos (x + 2) y)) = {Pos (x + 1) y}"
    using line g by (subst ZGrid_graph_plain, simp)+
  ultimately show ?thesis by blast
qed

theorem line_of_three_witness:
  "ZGrid_path_length
     \<lparr>on = Some CHR ''#'', off = Some CHR ''.'',
        d = PlainDict [(Pos 0 0, Some CHR ''#''), (Pos 1 0, Some CHR ''#''), (Pos 2 0, Some CHR ''#'')]\<rparr>
     (Pos 2 0) (Pos 0 0) = Inr 2
   \<and> (\<exists>self'. ZGrid_delitem
         \<lparr>on = Some CHR ''#'', off = Some CHR ''.'',
            d = PlainDict [(Pos 0 0, Some CHR ''#''), (Pos 1 0, Some CHR ''#''), (Pos 2 0, Some CHR ''#'')]\<rparr>
         (Pos 1 0) = Inr self'
         \<and> ZGrid_path_length self' (Pos 2 0) (Pos 0 0) = Inl NetworkXNoPath)"
proof -
  let ?G = "\<lparr>on = Some CHR ''#'', off = Some CHR ''.'',
        d = PlainDict [(Pos 0 0, Some CHR ''#''), (Pos 1 0, Some CHR ''#''), (Pos 2 0, Some CHR ''#'')]\<rparr>"
  have h1: "wf_dict (ZGrid_items ?G)" by (simp add: wf_dict_def ZGrid_items_def)
  have h2: "set (ZGrid_items ?G) =
           {(Pos 0 0, on ?G), (Pos (0 + 1) 0, on ?G), (Pos (0 + 2) 0, on ?G)}"
    by (simp add: ZGrid_items_def)
  have h3: "on ?G \<noteq> None" by simp
  have h4: "exact_coord 0" "exact_coord (0 + 3)" "exact_coord 0" "exact_coord (0 + 1)"
    by (simp_all add: exact_coord_def)
  from line_of_three_is_path_graph [OF h1 h2 h3 h4] show ?thesis by simp
qed

section \<open>Properties of the array export\<close>

lemma init_line_distinct:
  "distinct (map fst kvs) \<Longrightarrow> distinct (map fst (fold (\<lambda>(col, char) acc. AList.update (Pos (int col) (int row)) char acc) cs kvs))"
  by (induction cs arbitrary: kvs) (auto simp: distinct_update)

lemma init_rows_distinct:
  "distinct (map fst kvs) \<Longrightarrow> distinct (map fst (fold (\<lambda>(row, line) acc. init_line row line acc) rs kvs))"
  by (induction rs arbitrary: kvs) (auto simp: init_line_def init_line_distinct)

lemma init_text_distinct: "distinct (map fst (init_text text))"
  by (simp add: init_text_def init_rows_distinct)

lemma init_line_from_map_of:
  "map_of (fold (\<lambda>(col, char) acc. AList.update (Pos (int col) (int row)) char acc) (enumerate n line) kvs) (Pos x y) =
     (if y = int row \<and> int n \<le> x \<and> x < int (n + length line) then Some (line ! (nat x - n))
      else map_of kvs (Pos x y))"
proof (induction line arbitrary: n kvs)
  case Nil
  then show ?case by auto
next
  case (Cons c cs)
  show ?case
    by (simp add: Cons.IH update_conv' nth_Cons') (auto simp: nat_diff_distrib' Suc_diff_le  nat_le_iff)
qed


lemma init_line_map_of:
  "map_of (init_line row line kvs) (Pos x y) =
     (if y = int row \<and> 0 \<le> x \<and> x < int (length line) then Some (line ! nat x)
      else map_of kvs (Pos x y))"
  using init_line_from_map_of [of row 0 line kvs x y] by (simp add: init_line_def)

lemma init_rows_from_map_of:
  "map_of (fold (\<lambda>(row, line) acc. init_line row line acc) (enumerate n ls) kvs) (Pos x y) =
     (if int n \<le> y \<and> y < int (n + length ls) \<and> 0 \<le> x \<and> x < int (length (ls ! (nat y - n)))
      then Some (ls ! (nat y - n) ! nat x)
      else map_of kvs (Pos x y))"
proof (induction ls arbitrary: n kvs)
  case Nil
  then show ?case by auto
next
  case (Cons l ls)
  show ?case
    by (simp add: Cons.IH init_line_map_of nth_Cons') (auto simp: nat_diff_distrib' Suc_diff_le nat_le_iff)
qed

lemma init_text_map_of:
  "map_of (init_text text) (Pos x y) =
     (if 0 \<le> y \<and> y < int (length (splitlines text)) \<and> 0 \<le> x \<and> x < int (length (splitlines text ! nat y))
      then Some (splitlines text ! nat y ! nat x)
      else None)"
  using init_rows_from_map_of [of 0 "splitlines text" "[]" x y] by (simp add: init_text_def)


lemma zip_maps: "zip (map f es) (map g es) = map (\<lambda>e. (f e, g e)) es"
  by (induction es) simp_all

lemma fold_assign_cell:
  "distinct (map fst cells) \<Longrightarrow> r < length A \<Longrightarrow> c < length (A ! r) \<Longrightarrow>
   length (fold assign_cell cells A) = length A
   \<and> length (fold assign_cell cells A ! r) = length (A ! r)
   \<and> fold assign_cell cells A ! r ! c = (case map_of cells (r, c) of None \<Rightarrow> A ! r ! c | Some v \<Rightarrow> v)"
proof (induction cells arbitrary: A)
  case Nil
  then show ?case by simp
next
  case (Cons e cells)
  obtain y x v where e: "e = ((y, x), v)" by (metis surj_pair)
  let ?A = "assign_cell e A"
  have len: "length ?A = length A" "length (?A ! r) = length (A ! r)"
    using Cons.prems(2) by (cases "y = r"; simp add: e assign_cell_def)+
  have d: "distinct (map fst cells)" using Cons.prems(1) by simp
  have r: "r < length ?A" and c: "c < length (?A ! r)" using len Cons.prems by simp_all
  note IH = Cons.IH [OF d r c]
  show ?case
  proof (cases "(y, x) = (r, c)")
    case True
    then have "map_of cells (r, c) = None"
      using Cons.prems(1) e by (simp add: map_of_eq_None_iff)
    moreover have "?A ! r ! c = v"
      using True Cons.prems(2,3) by (simp add: e assign_cell_def)
    ultimately show ?thesis using IH len True e by simp
  next
    case False
    then have "?A ! r ! c = A ! r ! c"
      using Cons.prems(2,3) by (cases "y = r"; cases "x = c"; simp add: e assign_cell_def)
    moreover have "map_of (e # cells) (r, c) = map_of cells (r, c)"
      using False e by auto
    ultimately show ?thesis using IH len by (simp split: option.splits)
  qed
qed

lemma map_of_reindex:
  "inj_on f (insert k (fst ` set t)) \<Longrightarrow>
   map_of (map (\<lambda>e. (f (fst e), h (snd e))) t) (f k) = map_option h (map_of t k)"
proof (induction t)
  case Nil
  then show ?case by simp
next
  case (Cons e t)
  have "inj_on f (insert k (fst ` set t))"
    using Cons.prems by (rule inj_on_subset) auto
  moreover have "f (fst e) = f k \<longleftrightarrow> fst e = k"
    using Cons.prems by (auto simp: inj_on_def)
  ultimately show ?case using Cons.IH by (cases e) auto
qed

lemma Min_int_upt: "0 < n \<Longrightarrow> Min (int ` {0 ..< n}) = 0"
  by (rule Min_eqI) auto

lemma Max_int_upt: "0 < n \<Longrightarrow> Max (int ` {0 ..< n}) = int n - 1"
proof (rule Max_eqI)
  assume "0 < n"
  then have "int n - 1 = int (n - 1)" "n - 1 \<in> {0 ..< n}" by auto
  then show "int n - 1 \<in> int ` {0 ..< n}" by (metis imageI)
qed auto

lemma ZGrid_array_eval:
  assumes "store_items (d self) = kvs"
    and "xs = map real_part (map fst kvs)" and "ys = map imag_part (map fst kvs)"
    and "xs \<noteq> []" and "ys \<noteq> []"
    and "Min (set xs) = x0" and "Max (set xs) = x1"
    and "Min (set ys) = y0" and "Max (set ys) = y1"
  shows "ZGrid_array self =
     Inr (fold assign_cell
            (zip (zip (map (\<lambda>y. nat (y - y0)) ys) (map (\<lambda>x. nat (x - x0)) xs))
                 (map U1_item (map snd kvs)))
            (replicate (nat (y1 - y0 + 1)) (replicate (nat (x1 - x0 + 1)) (U1_item (off self)))))"
  using assms(4-9)
  unfolding ZGrid_array_def ptp_def Let_def assms(1) assms(2) [symmetric] assms(3) [symmetric]
  by simp

lemma array_of_text_items:
  assumes rows: "splitlines text \<noteq> []"
    and cols: "0 < w"
    and rect: "\<forall>line \<in> set (splitlines text). length line = w"
  shows "ZGrid_array (ZGrid_init (Str text) on_glyph off_glyph) =
           Inr (map (map U1_item) (splitlines text))"
proof -
  let ?ls = "splitlines text"
  let ?h = "length ?ls"
  let ?kvs = "init_text text"
  have h: "0 < ?h" using rows by simp
  have len: "\<And>r. r < ?h \<Longrightarrow> length (?ls ! r) = w" using rect by simp
  have look: "\<And>x y. map_of ?kvs (Pos x y) =
      (if 0 \<le> y \<and> y < int ?h \<and> 0 \<le> x \<and> x < int w then Some (?ls ! nat y ! nat x) else None)"
    using len by (auto simp: init_text_map_of)
  have keys: "fst ` set ?kvs = {Pos (int c) (int r) | c r. c < w \<and> r < ?h}"
  proof (rule set_eqI)
    fix z
    obtain x y where z: "z = Pos x y" by (cases z)
    have "z \<in> fst ` set ?kvs \<longleftrightarrow> map_of ?kvs z \<noteq> None" by (simp add: map_of_eq_None_iff)
    also have "\<dots> \<longleftrightarrow> 0 \<le> y \<and> y < int ?h \<and> 0 \<le> x \<and> x < int w" by (simp add: z look)
    also have "\<dots> \<longleftrightarrow> z \<in> {Pos (int c) (int r) | c r. c < w \<and> r < ?h}"
    proof
      assume a: "0 \<le> y \<and> y < int ?h \<and> 0 \<le> x \<and> x < int w"
      then have "z = Pos (int (nat x)) (int (nat y)) \<and> nat x < w \<and> nat y < ?h"
        by (auto simp: z)
      then show "z \<in> {Pos (int c) (int r) | c r. c < w \<and> r < ?h}" by blast
    next
      assume "z \<in> {Pos (int c) (int r) | c r. c < w \<and> r < ?h}"
      then show "0 \<le> y \<and> y < int ?h \<and> 0 \<le> x \<and> x < int w" by (auto simp: z)
    qed
    finally show "z \<in> fst ` set ?kvs \<longleftrightarrow> z \<in> {Pos (int c) (int r) | c r. c < w \<and> r < ?h}" .
  qed
  let ?xs = "map real_part (map fst ?kvs)"
  let ?ys = "map imag_part (map fst ?kvs)"
  have sxs: "set ?xs = int ` {0 ..< w}"
  proof -
    have "set ?xs = real_part ` (fst ` set ?kvs)" by (simp add: image_image)
    also have "\<dots> = real_part ` {Pos (int c) (int r) | c r. c < w \<and> r < ?h}"
      by (simp only: keys)
    also have "\<dots> = int ` {0 ..< w}"
    proof (rule set_eqI)
      fix x
      show "x \<in> real_part ` {Pos (int c) (int r) | c r. c < w \<and> r < ?h} \<longleftrightarrow> x \<in> int ` {0 ..< w}"
      proof
        assume "x \<in> real_part ` {Pos (int c) (int r) | c r. c < w \<and> r < ?h}"
        then show "x \<in> int ` {0 ..< w}" by auto
      next
        assume "x \<in> int ` {0 ..< w}"
        then obtain c where c: "x = int c" "c < w" by auto
        then have "Pos (int c) (int 0) \<in> {Pos (int c) (int r) | c r. c < w \<and> r < ?h}"
          using h by blast
        then have "real_part (Pos (int c) (int 0)) \<in> real_part ` {Pos (int c) (int r) | c r. c < w \<and> r < ?h}"
          by (rule imageI)
        then show "x \<in> real_part ` {Pos (int c) (int r) | c r. c < w \<and> r < ?h}"
          using c by simp
      qed
    qed
    finally show ?thesis .
  qed
  have sys: "set ?ys = int ` {0 ..< ?h}"
  proof -
    have "set ?ys = imag_part ` (fst ` set ?kvs)" by (simp add: image_image)
    also have "\<dots> = imag_part ` {Pos (int c) (int r) | c r. c < w \<and> r < ?h}"
      by (simp only: keys)
    also have "\<dots> = int ` {0 ..< ?h}"
    proof (rule set_eqI)
      fix y
      show "y \<in> imag_part ` {Pos (int c) (int r) | c r. c < w \<and> r < ?h} \<longleftrightarrow> y \<in> int ` {0 ..< ?h}"
      proof
        assume "y \<in> imag_part ` {Pos (int c) (int r) | c r. c < w \<and> r < ?h}"
        then show "y \<in> int ` {0 ..< ?h}" by auto
      next
        assume "y \<in> int ` {0 ..< ?h}"
        then obtain r where r: "y = int r" "r < ?h" by auto
        then have "Pos (int 0) (int r) \<in> {Pos (int c) (int r) | c r. c < w \<and> r < ?h}"
          using cols by blast
        then have "imag_part (Pos (int 0) (int r)) \<in> imag_part ` {Pos (int c) (int r) | c r. c < w \<and> r < ?h}"
          by (rule imageI)
        then show "y \<in> imag_part ` {Pos (int c) (int r) | c r. c < w \<and> r < ?h}"
          using r by simp
      qed
    qed
    finally show ?thesis .
  qed
  have ne: "?xs \<noteq> []" "?ys \<noteq> []" using sxs sys cols h by auto
  have minx: "Min (set ?xs) = 0" unfolding sxs using cols by (rule Min_int_upt)
  have maxx: "Max (set ?xs) = int w - 1" unfolding sxs using cols by (rule Max_int_upt)
  have miny: "Min (set ?ys) = 0" unfolding sys using h by (rule Min_int_upt)
  have maxy: "Max (set ?ys) = int ?h - 1" unfolding sys using h by (rule Max_int_upt)
  let ?cells = "map (\<lambda>e. ((nat (imag_part (fst e)), nat (real_part (fst e))), U1_item (snd e))) ?kvs"
  let ?full = "replicate ?h (replicate w (U1_item off_glyph))"
  have zipped: "zip (zip (map (\<lambda>y. nat (y - 0)) ?ys) (map (\<lambda>x. nat (x - 0)) ?xs))
        (map U1_item (map snd ?kvs)) = ?cells"
    by (simp add: zip_maps comp_def)
  have "ZGrid_array (ZGrid_init (Str text) on_glyph off_glyph) =
     Inr (fold assign_cell
            (zip (zip (map (\<lambda>y. nat (y - 0)) ?ys) (map (\<lambda>x. nat (x - 0)) ?xs))
                 (map U1_item (map snd ?kvs)))
            (replicate (nat (int ?h - 1 - 0 + 1)) (replicate (nat (int w - 1 - 0 + 1))
               (U1_item (off (ZGrid_init (Str text) on_glyph off_glyph))))))"
    by (rule ZGrid_array_eval [OF _ refl refl ne minx maxx miny maxy]) simp
  then have arr: "ZGrid_array (ZGrid_init (Str text) on_glyph off_glyph) = Inr (fold assign_cell ?cells ?full)"
    unfolding zipped by simp
  let ?idx = "\<lambda>z. (nat (imag_part z), nat (real_part z))"
  have inj: "inj_on ?idx {z. 0 \<le> real_part z \<and> 0 \<le> imag_part z}"
  proof (rule inj_onI)
    fix a b
    assume "a \<in> {z. 0 \<le> real_part z \<and> 0 \<le> imag_part z}"
      and "b \<in> {z. 0 \<le> real_part z \<and> 0 \<le> imag_part z}"
      and "?idx a = ?idx b"
    then have "real_part a = real_part b \<and> imag_part a = imag_part b" by auto
    then show "a = b" by (simp add: pos.expand)
  qed
  have sub: "fst ` set ?kvs \<subseteq> {z. 0 \<le> real_part z \<and> 0 \<le> imag_part z}"
    unfolding keys by auto
  have dist: "distinct (map fst ?cells)"
  proof -
    have "map fst ?cells = map ?idx (map fst ?kvs)" by (simp add: comp_def)
    moreover have "distinct (map ?idx (map fst ?kvs))"
    proof (rule distinct_map [THEN iffD2, OF conjI])
      show "distinct (map fst ?kvs)" by (rule init_text_distinct)
      show "inj_on ?idx (set (map fst ?kvs))" using inj_on_subset [OF inj sub] by simp
    qed
    ultimately show ?thesis by (simp only:)
  qed
  have cell: "\<And>r c. r < ?h \<Longrightarrow> c < w \<Longrightarrow> map_of ?cells (r, c) = Some (U1_item (?ls ! r ! c))"
  proof -
    fix r c assume rc: "r < ?h" "c < w"
    have "inj_on ?idx (insert (Pos (int c) (int r)) (fst ` set ?kvs))"
      using sub by (intro inj_on_subset [OF inj]) auto
    from map_of_reindex [OF this]
    have "map_of ?cells (?idx (Pos (int c) (int r))) = map_option U1_item (map_of ?kvs (Pos (int c) (int r)))" .
    then show "map_of ?cells (r, c) = Some (U1_item (?ls ! r ! c))" using rc by (simp add: look)
  qed
  have entry: "\<And>r c. r < ?h \<Longrightarrow> c < w \<Longrightarrow>
      length (fold assign_cell ?cells ?full) = ?h
      \<and> length (fold assign_cell ?cells ?full ! r) = w
      \<and> fold assign_cell ?cells ?full ! r ! c = U1_item (?ls ! r ! c)"
  proof -
    fix r c assume rc: "r < ?h" "c < w"
    from fold_assign_cell [OF dist, of r ?full c] rc cell [OF rc]
    show "length (fold assign_cell ?cells ?full) = ?h
      \<and> length (fold assign_cell ?cells ?full ! r) = w
      \<and> fold assign_cell ?cells ?full ! r ! c = U1_item (?ls ! r ! c)" by simp
  qed
  have "fold assign_cell ?cells ?full = map (map U1_item) ?ls"
  proof (rule nth_equalityI)
    show "length (fold assign_cell ?cells ?full) = length (map (map U1_item) ?ls)"
      using entry [OF h cols] by simp
  next
    fix r assume "r < length (fold assign_cell ?cells ?full)"
    then have r: "r < ?h" using entry [OF h cols] by simp
    show "fold assign_cell ?cells ?full ! r = map (map U1_item) ?ls ! r"
    proof (rule nth_equalityI)
      show "length (fold assign_cell ?cells ?full ! r) = length (map (map U1_item) ?ls ! r)"
        using entry [OF r cols] len [OF r] r by simp
    next
      fix c assume "c < length (fold assign_cell ?cells ?full ! r)"
      then have c: "c < w" using entry [OF r cols] by simp
      then show "fold assign_cell ?cells ?full ! r ! c = map (map U1_item) ?ls ! r ! c"
        using entry [OF r c] len [OF r] r by simp
    qed
  qed
  then show ?thesis using arr by simp
qed

lemma splitlines_from_chars:
  "line \<in> set (splitlines_from cur cs) \<Longrightarrow> set line \<subseteq> set cur \<union> set cs"
proof (induction cur cs rule: splitlines_from.induct)
  case (1 cur)
  then show ?case by (simp split: if_splits)
next
  case (2 cur c cs)
  show ?case
  proof (cases "c = CHR 0x0D")
    case True
    show ?thesis
    proof (cases cs)
      case Nil
      then show ?thesis using 2 True by auto
    next
      case (Cons c' cs')
      then show ?thesis using 2 True by (cases "c' = CHR 0x0A") auto
    qed
  next
    case False
    then show ?thesis using 2 by (cases "is_linebreak c") auto
  qed
qed

lemma splitlines_chars: "line \<in> set (splitlines input) \<Longrightarrow> set line \<subseteq> set input"
  using splitlines_from_chars [of line "[]" input] by (simp add: splitlines_def)

text \<open>
  Claim C3, as stated: every text block whose lines have one length exports to the dense
  array of its characters, glyph for glyph. Two empty lines are such a block; the grid
  built from them stores no cell, and the export raises \<^verbatim>\<open>ValueError\<close> (the extent of an
  empty array). The two lines \<open>a\<close>, NUL and \<open>b\<close>, \<open>c\<close> are such a block too; the array
  holds the empty string where the text has the NUL character.
\<close>

theorem array_of_empty_lines_or_NUL_differs:
  "splitlines [CHR 0x0A, CHR 0x0A] = [[], []]
   \<and> ZGrid_array (ZGrid_init (Str [CHR 0x0A, CHR 0x0A]) CHR ''#'' CHR ''.'') = Inl ValueError
   \<and> splitlines [CHR ''a'', CHR 0x00, CHR 0x0A, CHR ''b'', CHR ''c'']
       = [[CHR ''a'', CHR 0x00], [CHR ''b'', CHR ''c'']]
   \<and> ZGrid_array (ZGrid_init (Str [CHR ''a'', CHR 0x00, CHR 0x0A, CHR ''b'', CHR ''c'']) CHR ''#'' CHR ''.'')
       = Inr [[[CHR ''a''], []], [[CHR ''b''], [CHR ''c'']]]"
  by (simp add: ZGrid_array_def ptp_def U1_item_def assign_cell_def init_text_def init_line_def
      splitlines_def is_linebreak_def enumerate_eq_zip numeral_2_eq_2)

text \<open>
  Claim C3, amended: for every text without a NUL character that has at least one line and
  whose lines all have the same length, which is not zero, the grid built from the text
  exports to the array whose rows are the lines of the text: the entry at a row and column
  is the one-character string of the character at that line and offset, and no entry is
  the \<open>off\<close> filler.
\<close>

theorem array_of_rectangular_text:
  assumes rows: "splitlines text \<noteq> []"
    and cols: "0 < w"
    and rect: "\<forall>line \<in> set (splitlines text). length line = w"
    and nonul: "CHR 0x00 \<notin> set text"
  shows "ZGrid_array (ZGrid_init (Str text) on_glyph off_glyph) =
           Inr (map (map (\<lambda>c. [c])) (splitlines text))"
proof -
  have "map (map U1_item) (splitlines text) = map (map (\<lambda>c. [c])) (splitlines text)"
  proof (rule map_cong [OF refl], rule map_cong [OF refl])
    fix line c assume "line \<in> set (splitlines text)" and "c \<in> set line"
    then have "c \<in> set text" using splitlines_chars by blast
    then have "c \<noteq> CHR 0x00" using nonul by auto
    then show "U1_item c = [c]" by (simp add: U1_item_def)
  qed
  then show ?thesis using array_of_text_items [OF rows cols rect] by simp
qed

theorem array_of_rectangular_text_witness:
  "ZGrid_array (ZGrid_init (Str [CHR ''a'', CHR ''b'', CHR ''c'', CHR 0x0A, CHR ''d'', CHR ''e'', CHR ''f''])
                  CHR ''#'' CHR ''.'')
     = Inr [[[CHR ''a''], [CHR ''b''], [CHR ''c'']], [[CHR ''d''], [CHR ''e''], [CHR ''f'']]]"
proof -
  let ?t = "[CHR ''a'', CHR ''b'', CHR ''c'', CHR 0x0A, CHR ''d'', CHR ''e'', CHR ''f'']"
  have ls: "splitlines ?t = [[CHR ''a'', CHR ''b'', CHR ''c''], [CHR ''d'', CHR ''e'', CHR ''f'']]"
    by (simp add: splitlines_def is_linebreak_def)
  have h1: "splitlines ?t \<noteq> []" and h2: "(0::nat) < 3"
    and h3: "\<forall>line \<in> set (splitlines ?t). length line = 3"
    unfolding ls by simp_all
  have h4: "CHR 0x00 \<notin> set ?t" by simp
  from array_of_rectangular_text [OF h1 h2 h3 h4, of "CHR ''#''" "CHR ''.''"] show ?thesis
    unfolding ls by simp
qed

end
